theory Spec2Isabelle
  imports Complex_Main "HOL-Library.Sublist"
begin

section \<open>JavaScript values\<close>

text \<open>
  A JavaScript string is a sequence of UTF-16 code units; \<open>length\<close> counts code units.
  String literals of the source that are plain ASCII are written with \<open>js\<close>.
\<close>

type_synonym jsstring = "nat list"

definition js :: "string \<Rightarrow> jsstring" where
  "js s = map of_char s"

text \<open>
  \<open>String.prototype.trim\<close> and the regular expression class \<open>\s\<close> use the same set:
  WhiteSpace and LineTerminator of ECMAScript.
\<close>

definition isWhiteSpace :: "nat \<Rightarrow> bool" where
  "isWhiteSpace c \<longleftrightarrow>
     c \<in> {9, 10, 11, 12, 13, 32, 160, 0x1680, 0x2028, 0x2029, 0x202F, 0x205F, 0x3000, 0xFEFF}
     \<or> (0x2000 \<le> c \<and> c \<le> 0x200A)"

definition trim :: "jsstring \<Rightarrow> jsstring" where
  "trim s = rev (dropWhile isWhiteSpace (rev (dropWhile isWhiteSpace s)))"

text \<open>
  \<open>toLowerCase\<close> on the ASCII letters. The family names it is compared with are ASCII and
  contain no \<open>k\<close>, the only ASCII letter that a code unit outside ASCII lowers to, so every
  comparison of \<open>models.ts\<close> has the value it has in JavaScript.
\<close>

definition toLowerCase :: "jsstring \<Rightarrow> jsstring" where
  "toLowerCase s = map (\<lambda>c. if 65 \<le> c \<and> c \<le> 90 then c + 32 else c) s"

text \<open>
  A JavaScript number: a finite double is a rational, and the operations used here
  (\<open>Math.min\<close>, \<open>Math.max\<close>, \<open>Math.round\<close> on values between 0 and 100, \<open>\<le>\<close>) are exact.
\<close>

datatype number = Finite rat | NaN | PosInfinity | NegInfinity

fun isFinite :: "number \<Rightarrow> bool" where
  "isFinite (Finite v) = True"
| "isFinite _ = False"

text \<open>The comparison \<open>a <= b\<close> of JavaScript: false whenever an operand is NaN.\<close>

fun numLe :: "number \<Rightarrow> number \<Rightarrow> bool" where
  "numLe NaN _ = False"
| "numLe _ NaN = False"
| "numLe (Finite a) (Finite b) = (a \<le> b)"
| "numLe NegInfinity _ = True"
| "numLe _ PosInfinity = True"
| "numLe PosInfinity _ = False"
| "numLe _ NegInfinity = False"

text \<open>
  A value that \<open>JSON.parse\<close> gives. An object is the list of its own properties, each
  key once. A number is kept as the string that \<open>ToString\<close> gives for it, which is
  \<open>0\<close> exactly for the two zeros, the numbers that are falsy.
\<close>

datatype json =
    JNull
  | JBoolean bool
  | JNumber jsstring
  | JString jsstring
  | JArray "json list"
  | JObject "(jsstring \<times> json) list"

fun truthy :: "json \<Rightarrow> bool" where
  "truthy JNull = False"
| "truthy (JBoolean b) = b"
| "truthy (JNumber s) = (s \<noteq> js ''0'')"
| "truthy (JString s) = (s \<noteq> [])"
| "truthy (JArray xs) = True"
| "truthy (JObject props) = True"

text \<open>
  The message of the \<open>TypeError\<close> that V8, the engine of VS Code, throws when an object
  has no primitive value.
\<close>

definition typeErrorMessage :: jsstring where
  "typeErrorMessage = js ''Cannot convert object to primitive value''"

text \<open>\<open>Array.prototype.join\<close> with the separator \<open>,\<close>, on the strings of the elements; \<open>Inl\<close> is an error thrown for an element.\<close>

fun joinStrings :: "(jsstring + jsstring) list \<Rightarrow> jsstring + jsstring" where
  "joinStrings [] = Inr []"
| "joinStrings [x] = x"
| "joinStrings (x # y # ys) =
     (case x of
        Inl err \<Rightarrow> Inl err
      | Inr s \<Rightarrow> (case joinStrings (y # ys) of Inl err \<Rightarrow> Inl err | Inr r \<Rightarrow> Inr (s @ [44] @ r)))"

text \<open>
  \<open>ToString\<close>, which a template literal and \<open>String(...)\<close> apply. An array is joined, with
  the empty string for \<open>null\<close>. An object is converted by \<open>toString\<close> and then
  \<open>valueOf\<close>, where they are functions: the inherited \<open>toString\<close> gives
  \<open>[object Object]\<close>; with an own property \<open>toString\<close>, which is no function, only
  \<open>valueOf\<close> is left, which is no function either or gives the object back, and the
  conversion throws a \<open>TypeError\<close>.
\<close>

fun toStringJS :: "json \<Rightarrow> jsstring + jsstring" where
  "toStringJS JNull = Inr (js ''null'')"
| "toStringJS (JBoolean b) = Inr (if b then js ''true'' else js ''false'')"
| "toStringJS (JNumber s) = Inr s"
| "toStringJS (JString s) = Inr s"
| "toStringJS (JArray xs) =
     joinStrings (map (\<lambda>x. case x of JNull \<Rightarrow> Inr [] | _ \<Rightarrow> toStringJS x) xs)"
| "toStringJS (JObject props) =
     (if js ''toString'' \<in> set (map fst props) then Inl typeErrorMessage
      else Inr (js ''[object Object]''))"

text \<open>\<open>String.prototype.replace\<close> with a string as pattern: the first occurrence is replaced.\<close>

fun replaceFirst :: "jsstring \<Rightarrow> jsstring \<Rightarrow> jsstring \<Rightarrow> jsstring" where
  "replaceFirst pat rep [] = (if pat = [] then rep else [])"
| "replaceFirst pat rep (c # cs) =
     (if prefix pat (c # cs) then rep @ drop (length pat) (c # cs)
      else c # replaceFirst pat rep cs)"

section \<open>models.ts\<close>

datatype modelTier = Free | Premium

definition FREE_MODEL_FAMILIES :: "jsstring list" where
  "FREE_MODEL_FAMILIES = [js ''gpt-4o'', js ''gpt-4o-mini'', js ''gpt-4.1'']"

text \<open>The fields of \<open>vscode.LanguageModelChat\<close> that the selection reads.\<close>

record languageModelChat =
  model_id :: jsstring
  model_family :: jsstring

record modelSelection =
  model :: languageModelChat
  tier :: modelTier
  family :: jsstring

definition isFreeFamily :: "jsstring \<Rightarrow> bool" where
  "isFreeFamily fam = list_ex (\<lambda>f. trim (toLowerCase fam) = toLowerCase f) FREE_MODEL_FAMILIES"

text \<open>The loop over \<open>FREE_MODEL_FAMILIES\<close> of the free branch: the first family with a match wins.\<close>

fun firstPreferred :: "jsstring list \<Rightarrow> languageModelChat list \<Rightarrow> languageModelChat option" where
  "firstPreferred [] allModels = None"
| "firstPreferred (f # fs) allModels =
     (case find (\<lambda>m. toLowerCase (model_family m) = toLowerCase f) allModels of
        Some match \<Rightarrow> Some match
      | None \<Rightarrow> firstPreferred fs allModels)"

text \<open>
  \<open>selectModel\<close>; the list is what \<open>getAllModels()\<close> resolved to, and \<open>None\<close> is
  \<open>undefined\<close>.
\<close>

definition selectModel :: "modelTier \<Rightarrow> languageModelChat list \<Rightarrow> modelSelection option" where
  "selectModel t allModels =
     (case allModels of
        [] \<Rightarrow> None
      | first # _ \<Rightarrow>
          (if t = Free then
             (case firstPreferred FREE_MODEL_FAMILIES allModels of
                Some match \<Rightarrow> Some \<lparr>model = match, tier = Free, family = model_family match\<rparr>
              | None \<Rightarrow>
                  (case find (\<lambda>m. isFreeFamily (model_family m)) allModels of
                     Some anyFree \<Rightarrow>
                       Some \<lparr>model = anyFree, tier = Free, family = model_family anyFree\<rparr>
                   | None \<Rightarrow> Some \<lparr>model = first, tier = Free, family = model_family first\<rparr>))
           else
             (case find (\<lambda>m. \<not> isFreeFamily (model_family m)) allModels of
                Some premiumModel \<Rightarrow>
                  Some \<lparr>model = premiumModel, tier = Premium, family = model_family premiumModel\<rparr>
              | None \<Rightarrow> Some \<lparr>model = first, tier = Free, family = model_family first\<rparr>)))"

section \<open>router.ts\<close>

record routerInput =
  score :: number
  freeThreshold :: number

record routingDecision =
  decision_tier :: modelTier
  decision_score :: number
  threshold :: number

text \<open>\<open>Math.round\<close> rounds a tie towards plus infinity, as \<open>round\<close> does.\<close>

definition normalizeThreshold :: "number \<Rightarrow> number" where
  "normalizeThreshold v =
     (case v of
        Finite x \<Rightarrow> Finite (of_int (round (max 0 (min 100 x))))
      | _ \<Rightarrow> Finite 70)"

definition getRoutingDecision :: "routerInput \<Rightarrow> routingDecision" where
  "getRoutingDecision inp =
     (let thr = normalizeThreshold (freeThreshold inp);
          t = (if numLe (score inp) thr then Free else Premium)
      in \<lparr>decision_tier = t, decision_score = score inp, threshold = thr\<rparr>)"

section \<open>scorer.ts\<close>

record complexityResult =
  result_score :: int
  reasons :: "string list"

subsection \<open>The regular expressions\<close>

text \<open>
  Every pattern of \<open>COMPLEXITY_TERMS\<close> has the shape \<open>/\b(a1|...|an)\b/i\<close>, where an
  alternative is a sequence of literal characters, the class \<open>[sz]\<close> and \<open>\s*\<close>.
\<close>

datatype atom = Lit nat | OneOf "nat list" | WhiteSpaceStar

definition lits :: "string \<Rightarrow> atom list" where
  "lits s = map (\<lambda>c. Lit (of_char c)) s"

text \<open>
  Canonicalize of a pattern with the \<open>i\<close> flag and without \<open>u\<close>: an ASCII letter becomes
  its capital; a code unit outside ASCII never becomes an ASCII one.
\<close>

definition canonicalize :: "nat \<Rightarrow> nat" where
  "canonicalize c = (if 97 \<le> c \<and> c \<le> 122 then c - 32 else c)"

definition isWordChar :: "nat \<Rightarrow> bool" where
  "isWordChar c \<longleftrightarrow> (48 \<le> c \<and> c \<le> 57) \<or> (65 \<le> c \<and> c \<le> 90) \<or> c = 95 \<or> (97 \<le> c \<and> c \<le> 122)"

text \<open>The assertion \<open>\b\<close> at position \<open>i\<close>.\<close>

definition isBoundary :: "jsstring \<Rightarrow> nat \<Rightarrow> bool" where
  "isBoundary s i \<longleftrightarrow>
     (0 < i \<and> i - 1 < length s \<and> isWordChar (s ! (i - 1))) \<noteq> (i < length s \<and> isWordChar (s ! i))"

text \<open>
  The positions where a match of the atoms that starts at \<open>i\<close> can end. The matcher
  backtracks, so \<open>test\<close> succeeds when any of them works.
\<close>

fun matchEnds :: "atom list \<Rightarrow> jsstring \<Rightarrow> nat \<Rightarrow> nat list" where
  "matchEnds [] s i = [i]"
| "matchEnds (Lit c # as) s i =
     (if i < length s \<and> canonicalize (s ! i) = canonicalize c then matchEnds as s (Suc i) else [])"
| "matchEnds (OneOf cs # as) s i =
     (if i < length s \<and> canonicalize (s ! i) \<in> set (map canonicalize cs)
      then matchEnds as s (Suc i) else [])"
| "matchEnds (WhiteSpaceStar # as) s i =
     concat (map (\<lambda>k. matchEnds as s (i + k))
       [0 ..< Suc (length (takeWhile isWhiteSpace (drop i s)))])"

definition test :: "atom list list \<Rightarrow> jsstring \<Rightarrow> bool" where
  "test alts s =
     list_ex (\<lambda>i. isBoundary s i \<and>
        list_ex (\<lambda>alt. list_ex (\<lambda>j. isBoundary s j) (matchEnds alt s i)) alts)
       [0 ..< Suc (length s)]"

subsection \<open>The scorer\<close>

record complexityTerm =
  pattern :: "atom list list"
  weight :: int
  reason :: string

definition COMPLEXITY_TERMS :: "complexityTerm list" where
  "COMPLEXITY_TERMS =
    [\<lparr>pattern = [lits ''architecture'', lits ''system design'', lits ''distributed'',
                  lits ''scalable'', lits ''microservices''],
      weight = 20, reason = ''system-level request''\<rparr>,
     \<lparr>pattern = [lits ''optimi'' @ [OneOf [115, 122]] @ lits ''e'', lits ''performance'',
                  lits ''big'' @ [WhiteSpaceStar] @ lits ''o'', lits ''benchmark'',
                  lits ''latency'', lits ''throughput''],
      weight = 15, reason = ''performance focus''\<rparr>,
     \<lparr>pattern = [lits ''security'', lits ''auth'', lits ''encryption'', lits ''compliance'',
                  lits ''vulnerability''],
      weight = 20, reason = ''security/compliance''\<rparr>,
     \<lparr>pattern = [lits ''refactor'', lits ''migration'', lits ''backward compatibility'',
                  lits ''legacy''],
      weight = 12, reason = ''codebase evolution''\<rparr>,
     \<lparr>pattern = [lits ''machine learning'', lits ''ml'', lits ''neural'',
                  lits ''model training'', lits ''inference''],
      weight = 18, reason = ''advanced domain''\<rparr>,
     \<lparr>pattern = [lits ''debug'', lits ''trace'', lits ''root cause'', lits ''intermittent''],
      weight = 10, reason = ''deep troubleshooting''\<rparr>]"

text \<open>\<open>Math.round\<close> of the sum of integers is the sum itself.\<close>

definition clampScore :: "int \<Rightarrow> int" where
  "clampScore v = max 0 (min 100 v)"

text \<open>\<open>split(/\r?\n/)\<close>; the first argument is the piece being read.\<close>

fun splitLines :: "jsstring \<Rightarrow> jsstring \<Rightarrow> jsstring list" where
  "splitLines cur [] = [cur]"
| "splitLines cur [c] = (if c = 10 then [cur, []] else [cur @ [c]])"
| "splitLines cur (c # d # cs) =
     (if c = 10 then cur # splitLines [] (d # cs)
      else if c = 13 \<and> d = 10 then cur # splitLines [] cs
      else splitLines (cur @ [c]) (d # cs))"

text \<open>The characters of the class \<open>[;:{}()[\]]\<close>.\<close>

definition isPunctuation :: "nat \<Rightarrow> bool" where
  "isPunctuation c \<longleftrightarrow> c \<in> {59, 58, 123, 125, 40, 41, 91, 93}"

text \<open>One turn of the loop over \<open>COMPLEXITY_TERMS\<close>, on the pair of score and reasons.\<close>

definition applyTerm :: "jsstring \<Rightarrow> int \<times> string list \<Rightarrow> complexityTerm \<Rightarrow> int \<times> string list" where
  "applyTerm normalized acc t =
     (if test (pattern t) normalized then (fst acc + weight t, snd acc @ [reason t]) else acc)"

definition scorePromptComplexity :: "jsstring \<Rightarrow> complexityResult" where
  "scorePromptComplexity prompt =
     (let normalized = trim prompt in
      if normalized = [] then \<lparr>result_score = 0, reasons = [''empty prompt'']\<rparr>
      else
        let lengthBonus = min 25 (int (length normalized) div 50);
            a1 = (10 + lengthBonus, if 0 < lengthBonus then [''longer prompt''] else []);
            lineCount = length (splitLines [] normalized);
            a2 = (if 4 \<le> lineCount then (fst a1 + 8, snd a1 @ [''multi-step structure'']) else a1);
            punctuationComplexity = length (filter isPunctuation normalized);
            a3 = (if 8 \<le> punctuationComplexity
                  then (fst a2 + 7, snd a2 @ [''dense technical syntax'']) else a2);
            a4 = foldl (applyTerm normalized) a3 COMPLEXITY_TERMS;
            finalScore = clampScore (fst a4)
        in \<lparr>result_score = finalScore,
            reasons = (if snd a4 \<noteq> [] then snd a4 else [''general request''])\<rparr>)"

section \<open>agent.ts\<close>

definition AGENT_TOOL_PREFIX :: jsstring where
  "AGENT_TOOL_PREFIX = js ''agent-router_''"

definition MAX_TOOL_ROUNDS :: nat where
  "MAX_TOOL_ROUNDS = 15"

definition SYSTEM_PROMPT :: jsstring where
  "SYSTEM_PROMPT = js (''You are an expert software engineering assistant running inside VS Code.\<newline>''
     @ ''You have access to tools that let you read, write, edit, and delete files, run terminal commands, search the codebase, list directories, and read VS Code diagnostics.\<newline>''
     @ ''\<newline>''
     @ ''Guidelines:\<newline>''
     @ ''- Use tools proactively to gather context before making changes.\<newline>''
     @ ''- When editing files, always read them first to understand current content and line numbers.\<newline>''
     @ ''- After writing or editing files, confirm success by reading them back or checking diagnostics.\<newline>''
     @ ''- For multi-file changes, process one file at a time.\<newline>''
     @ ''- To delete a file, use the deleteFile tool.\<newline>''
     @ ''- When done, give a concise summary of what was changed and why.'')"

subsection \<open>Messages and parts\<close>

text \<open>
  The input of a tool call is the value parsed from the arguments that the model wrote;
  \<open>summarizeToolCall\<close> reads it.
\<close>

type_synonym toolInput = json

datatype toolCall = LanguageModelToolCallPart (callId: jsstring) (name: jsstring) (input: toolInput)

text \<open>
  What the response stream yields: a text part, a tool call part, or a value of another
  class, which the loop skips.
\<close>

datatype chunk = TextChunk jsstring | ToolCallChunk toolCall | OtherChunk

datatype assistantPart = AssistantText jsstring | AssistantToolCall toolCall

datatype contentPart = LanguageModelTextPart jsstring | LanguageModelPromptTsxPart jsstring

datatype toolResult = LanguageModelToolResultPart (resultCallId: jsstring) (content: "contentPart list")

text \<open>
  \<open>LanguageModelChatMessage.User\<close> is called with a string for the first message and with
  the tool results of a round afterwards.
\<close>

datatype message =
    User jsstring
  | Assistant "assistantPart list"
  | UserToolResults "toolResult list"

subsection \<open>The host\<close>

text \<open>
  The response of \<open>model.sendRequest\<close>: the chunks that the stream yields, and the error
  that the stream throws after them when it does not end normally.
\<close>

record response =
  chunks :: "chunk list"
  streamError :: "jsstring option"

text \<open>
  The collaborators of the loop. \<open>lmTools\<close> are the names in \<open>vscode.lm.tools\<close>.
  \<open>sendRequest\<close> and \<open>invokeTool\<close> act on the state \<open>'w\<close> of everything outside the
  loop (the model, the workspace, the confirmation dialogs behind \<open>invokeTool\<close>); \<open>Inl\<close>
  is the message of the \<open>Error\<close> they throw. \<open>isCancellationRequested n\<close> is what the token
  answers the \<open>n\<close>-th time the loop reads it, counting from 0.
\<close>

record 'w host =
  lmTools :: "jsstring list"
  sendRequest :: "message list \<Rightarrow> jsstring list \<Rightarrow> 'w \<Rightarrow> (jsstring + response) \<times> 'w"
  invokeTool :: "toolCall \<Rightarrow> 'w \<Rightarrow> (jsstring + contentPart list) \<times> 'w"
  isCancellationRequested :: "nat \<Rightarrow> bool"

text \<open>
  What the loop does to the outside, in order: lines of the output channel, writes to the
  chat response stream, requests to the model and tool invocations. Lines and writes are
  kept by the statement that makes them, with the values it interpolates; the write of a
  tool summary holds the string that \<open>summarizeToolCall\<close> returned.
\<close>

datatype logLine =
    LogNoTools
  | LogRound nat
  | LogToolCall toolCall
  | LogFinished nat
  | LogToolRun jsstring
  | LogToolResult "contentPart list"
  | LogToolError jsstring

datatype markdown = ModelErrorMd jsstring | TextMd jsstring | ToolSummaryMd jsstring

datatype event =
    AppendLine logLine
  | Markdown markdown
  | SendRequest "message list" "jsstring list"
  | InvokeTool toolCall

record 'w agentState =
  messages :: "message list"
  trace :: "event list"
  world :: 'w
  clock :: nat

definition emit :: "event \<Rightarrow> 'w agentState \<Rightarrow> 'w agentState" where
  "emit e st = st\<lparr>trace := trace st @ [e]\<rparr>"

text \<open>The state after one more read of \<open>token.isCancellationRequested\<close>.\<close>

definition tick :: "'w agentState \<Rightarrow> 'w agentState" where
  "tick st = st\<lparr>clock := Suc (clock st)\<rparr>"

subsection \<open>The loop\<close>

text \<open>
  The \<open>for await\<close> over the response stream, with \<open>toolCalls\<close> and \<open>assistantParts\<close> as
  accumulator. The first component of the result is the error that leaves the loop when
  the stream throws.
\<close>

fun consumeStream ::
  "'w host \<Rightarrow> chunk list \<Rightarrow> jsstring option \<Rightarrow> toolCall list \<times> assistantPart list \<Rightarrow> 'w agentState
     \<Rightarrow> jsstring option \<times> (toolCall list \<times> assistantPart list) \<times> 'w agentState" where
  "consumeStream env [] err acc st = (err, acc, st)"
| "consumeStream env (c # cs) err (toolCalls, assistantParts) st =
     (if isCancellationRequested env (clock st) then (None, (toolCalls, assistantParts), tick st)
      else
        (case c of
           TextChunk v \<Rightarrow>
             consumeStream env cs err (toolCalls, assistantParts @ [AssistantText v])
               (emit (Markdown (TextMd v)) (tick st))
         | ToolCallChunk tc \<Rightarrow>
             consumeStream env cs err (toolCalls @ [tc], assistantParts @ [AssistantToolCall tc])
               (emit (AppendLine (LogToolCall tc)) (tick st))
         | OtherChunk \<Rightarrow> consumeStream env cs err (toolCalls, assistantParts) (tick st)))"

definition toolErrorText :: "toolCall \<Rightarrow> jsstring \<Rightarrow> jsstring" where
  \<open>toolErrorText call e = js ''Tool "'' @ name call @ js ''" error: '' @ e\<close>

text \<open>
  \<open>summarizeToolCall\<close>; \<open>Inl\<close> is the message of the error that the conversion of a
  property to a string throws. A property that the input does not have is \<open>undefined\<close>,
  also when the input is an array; the code unit 96 is the backtick, 0x2192 the arrow and 34
  the double quote.
\<close>

definition truthyProperty :: "(jsstring \<times> json) list \<Rightarrow> jsstring \<Rightarrow> json option" where
  "truthyProperty obj key =
     (case map_of obj key of
        Some v \<Rightarrow> (if truthy v then Some v else None)
      | None \<Rightarrow> None)"

definition summarizeToolCall :: "jsstring \<Rightarrow> toolInput \<Rightarrow> jsstring + jsstring" where
  "summarizeToolCall toolName inp =
     (let shortName = replaceFirst AGENT_TOOL_PREFIX [] toolName;
          plain = [96] @ shortName @ [96]
      in case inp of
           JObject obj \<Rightarrow>
             (case truthyProperty obj (js ''path'') of
                Some v \<Rightarrow>
                  (case toStringJS v of
                     Inl err \<Rightarrow> Inl err
                   | Inr p \<Rightarrow> Inr (plain @ [32, 0x2192, 32, 96] @ p @ [96]))
              | None \<Rightarrow>
                  (case truthyProperty obj (js ''command'') of
                     Some v \<Rightarrow>
                       (case toStringJS v of
                          Inl err \<Rightarrow> Inl err
                        | Inr c \<Rightarrow> Inr (plain @ [32, 0x2192, 32, 96] @ take 60 c @ [96]))
                   | None \<Rightarrow>
                       (case truthyProperty obj (js ''query'') of
                          Some v \<Rightarrow>
                            (case toStringJS v of
                               Inl err \<Rightarrow> Inl err
                             | Inr q \<Rightarrow> Inr (plain @ [32, 0x2192, 32, 34] @ take 60 q @ [34]))
                        | None \<Rightarrow> Inr plain)))
         | _ \<Rightarrow> Inr plain)"

text \<open>
  The body of the loop over \<open>toolCalls\<close> after the cancellation check, for one call. The
  summary is computed first, outside the \<open>try\<close>: its error leaves the loop, before
  anything is written. \<open>invokeTool\<close> is inside the \<open>try\<close>, and the \<open>catch\<close> makes a
  result of its error.
\<close>

definition runToolCall ::
  "'w host \<Rightarrow> toolCall \<Rightarrow> 'w agentState \<Rightarrow> (jsstring + toolResult) \<times> 'w agentState" where
  "runToolCall env call st =
     (case summarizeToolCall (name call) (input call) of
        Inl err \<Rightarrow> (Inl err, st)
      | Inr summary \<Rightarrow>
          (let st1 = emit (Markdown (ToolSummaryMd summary)) st;
               st2 = emit (AppendLine (LogToolRun (name call))) st1;
               st3 = emit (InvokeTool call) st2
           in case invokeTool env call (world st3) of
                (Inr resultContent, w) \<Rightarrow>
                  (Inr (LanguageModelToolResultPart (callId call) resultContent),
                   emit (AppendLine (LogToolResult resultContent)) (st3\<lparr>world := w\<rparr>))
              | (Inl e, w) \<Rightarrow>
                  (let msg = toolErrorText call e
                   in (Inr (LanguageModelToolResultPart (callId call) [LanguageModelTextPart msg]),
                       emit (AppendLine (LogToolError msg)) (st3\<lparr>world := w\<rparr>)))))"

text \<open>
  The loop over \<open>toolCalls\<close>, with \<open>toolResults\<close> as accumulator; \<open>Inl\<close> is the error
  that leaves it, and the results collected so far are lost with it.
\<close>

fun runToolCalls ::
  "'w host \<Rightarrow> toolCall list \<Rightarrow> toolResult list \<Rightarrow> 'w agentState
     \<Rightarrow> (jsstring + toolResult list) \<times> 'w agentState" where
  "runToolCalls env [] toolResults st = (Inr toolResults, st)"
| "runToolCalls env (call # calls) toolResults st =
     (if isCancellationRequested env (clock st) then (Inr toolResults, tick st)
      else
        (case runToolCall env call (tick st) of
           (Inl err, st') \<Rightarrow> (Inl err, st')
         | (Inr r, st') \<Rightarrow> runToolCalls env calls (toolResults @ [r]) st'))"

text \<open>How one turn of the loop over the rounds ends; \<open>rnd\<close> is the variable \<open>round\<close>.\<close>

datatype roundEnd = NextRound | Break | Throw jsstring

definition runRound :: "'w host \<Rightarrow> jsstring list \<Rightarrow> nat \<Rightarrow> 'w agentState \<Rightarrow> roundEnd \<times> 'w agentState" where
  "runRound env agentTools rnd st =
     (if isCancellationRequested env (clock st) then (Break, tick st)
      else
        (let st1 = emit (AppendLine (LogRound (rnd + 1))) (tick st);
             st2 = emit (SendRequest (messages st1) agentTools) st1
         in case sendRequest env (messages st1) agentTools (world st2) of
              (Inl e, w) \<Rightarrow> (Break, emit (Markdown (ModelErrorMd e)) (st2\<lparr>world := w\<rparr>))
            | (Inr resp, w) \<Rightarrow>
                (case consumeStream env (chunks resp) (streamError resp) ([], []) (st2\<lparr>world := w\<rparr>) of
                   (Some e, acc, st3) \<Rightarrow> (Throw e, st3)
                 | (None, (toolCalls, assistantParts), st3) \<Rightarrow>
                     (if toolCalls = [] then
                        (Break, emit (AppendLine (LogFinished (rnd + 1))) st3)
                      else
                        (let st4 = st3\<lparr>messages := messages st3 @ [Assistant assistantParts]\<rparr>
                         in case runToolCalls env toolCalls [] st4 of
                              (Inl err, st5) \<Rightarrow> (Throw err, st5)
                            | (Inr toolResults, st5) \<Rightarrow>
                                (NextRound,
                                 st5\<lparr>messages := messages st5 @ [UserToolResults toolResults]\<rparr>))))))"

text \<open>How \<open>runAgentLoop\<close> ends: its promise resolves, or rejects with an error.\<close>

datatype outcome = Returned | Threw jsstring

function runRounds :: "'w host \<Rightarrow> jsstring list \<Rightarrow> nat \<Rightarrow> 'w agentState \<Rightarrow> outcome \<times> 'w agentState" where
  "runRounds env agentTools rnd st =
     (if rnd < MAX_TOOL_ROUNDS then
        (case runRound env agentTools rnd st of
           (NextRound, st') \<Rightarrow> runRounds env agentTools (rnd + 1) st'
         | (Break, st') \<Rightarrow> (Returned, st')
         | (Throw e, st') \<Rightarrow> (Threw e, st'))
      else (Returned, st))"
  by pat_completeness auto
termination
  by (relation "measure (\<lambda>(env, agentTools, rnd, st). MAX_TOOL_ROUNDS - rnd)") auto

definition runAgentLoop :: "'w host \<Rightarrow> jsstring \<Rightarrow> 'w \<Rightarrow> outcome \<times> 'w agentState" where
  "runAgentLoop env userPrompt w =
     (let agentTools = filter (prefix AGENT_TOOL_PREFIX) (lmTools env);
          st0 = \<lparr>messages = [], trace = [], world = w, clock = 0\<rparr>;
          st1 = (if agentTools = [] then emit (AppendLine LogNoTools) st0 else st0);
          st2 = st1\<lparr>messages := [User (SYSTEM_PROMPT @ js ''\<newline>\<newline>User request: '' @ userPrompt)]\<rparr>
      in runRounds env agentTools 0 st2)"

subsection \<open>Reading a trace\<close>

fun requestsOf :: "event list \<Rightarrow> message list list" where
  "requestsOf [] = []"
| "requestsOf (SendRequest ms ts # es) = ms # requestsOf es"
| "requestsOf (_ # es) = requestsOf es"

fun invocationsOf :: "event list \<Rightarrow> toolCall list" where
  "invocationsOf [] = []"
| "invocationsOf (InvokeTool c # es) = c # invocationsOf es"
| "invocationsOf (_ # es) = invocationsOf es"

fun chatOf :: "event list \<Rightarrow> markdown list" where
  "chatOf [] = []"
| "chatOf (Markdown m # es) = m # chatOf es"
| "chatOf (_ # es) = chatOf es"

text \<open>The tool calls that an assistant message holds, and the text parts of a list of chunks.\<close>

fun callsIn :: "assistantPart list \<Rightarrow> toolCall list" where
  "callsIn [] = []"
| "callsIn (AssistantToolCall c # ps) = c # callsIn ps"
| "callsIn (_ # ps) = callsIn ps"

fun textsOf :: "chunk list \<Rightarrow> jsstring list" where
  "textsOf [] = []"
| "textsOf (TextChunk v # cs) = v # textsOf cs"
| "textsOf (_ # cs) = textsOf cs"

fun callsOf :: "chunk list \<Rightarrow> toolCall list" where
  "callsOf [] = []"
| "callsOf (ToolCallChunk c # cs) = c # callsOf cs"
| "callsOf (_ # cs) = callsOf cs"

text \<open>
  The value of \<open>resultContent\<close> after the \<open>try\<close> and \<open>catch\<close> of a call, from what
  \<open>invokeTool\<close> came to.
\<close>

definition resultContentFor :: "toolCall \<Rightarrow> jsstring + contentPart list \<Rightarrow> contentPart list" where
  "resultContentFor call out =
     (case out of
        Inr resultContent \<Rightarrow> resultContent
      | Inl e \<Rightarrow> [LanguageModelTextPart (toolErrorText call e)])"

text \<open>The events added between two states of one run.\<close>

definition newEvents :: "'w agentState \<Rightarrow> 'w agentState \<Rightarrow> event list" where
  "newEvents st st' = drop (length (trace st)) (trace st')"

subsection \<open>Example hosts\<close>

text \<open>
  Two calls with the input \<open>{}\<close> and a host whose model asks for both in every round; the
  host knows the first tool only and throws for the other. The token is never cancelled.
\<close>

definition readFileCall :: toolCall where
  "readFileCall = LanguageModelToolCallPart (js ''call-1'') (js ''agent-router_readFile'') (JObject [])"

definition unknownCall :: toolCall where
  "unknownCall = LanguageModelToolCallPart (js ''call-2'') (js ''doesNotExist'') (JObject [])"


definition startState :: "unit agentState" where
  "startState = \<lparr>messages = [User (js ''hello'')], trace = [], world = (), clock = 0\<rparr>"

text \<open>
  A host whose model answers with text only; a host whose token is cancelled from the
  fourth reading on; and a host whose response stream throws after one chunk.
\<close>

definition textOnlyHost :: "unit host" where
  "textOnlyHost =
     \<lparr>lmTools = [],
      sendRequest = (\<lambda>ms ts w. (Inr \<lparr>chunks = [TextChunk (js ''done'')], streamError = None\<rparr>, w)),
      invokeTool = (\<lambda>c w. (Inl (js ''unknown tool''), w)),
      isCancellationRequested = (\<lambda>n. False)\<rparr>"

definition cancellingHost :: "unit host" where
  "cancellingHost =
     \<lparr>lmTools = [],
      sendRequest = (\<lambda>ms ts w.
        (Inr \<lparr>chunks = [TextChunk (js ''one''), ToolCallChunk readFileCall, TextChunk (js ''two''),
                        ToolCallChunk unknownCall],
              streamError = None\<rparr>, w)),
      invokeTool = (\<lambda>c w. (Inr [LanguageModelTextPart (js ''contents'')], w)),
      isCancellationRequested = (\<lambda>n. 3 \<le> n)\<rparr>"

definition failingStreamHost :: "unit host" where
  "failingStreamHost =
     \<lparr>lmTools = [],
      sendRequest = (\<lambda>ms ts w.
        (Inr \<lparr>chunks = [TextChunk (js ''partial'')], streamError = Some (js ''network error'')\<rparr>, w)),
      invokeTool = (\<lambda>c w. (Inl (js ''unknown tool''), w)),
      isCancellationRequested = (\<lambda>n. False)\<rparr>"

text \<open>
  A call of a tool that is not registered, with the input \<open>{"path": {"toString": 0}}\<close>, and
  a host whose model asks in every round for \<open>readFile\<close> and then for that tool. The host
  knows \<open>readFile\<close> and throws for any other tool; the token is never cancelled.
\<close>

definition unprintableCall :: toolCall where
  "unprintableCall =
     LanguageModelToolCallPart (js ''call-3'') (js ''doesNotExist'')
       (JObject [(js ''path'', JObject [(js ''toString'', JNumber (js ''0''))])])"

definition unprintableInputHost :: "unit host" where
  "unprintableInputHost =
     \<lparr>lmTools = [js ''agent-router_readFile''],
      sendRequest = (\<lambda>ms ts w.
        (Inr \<lparr>chunks = [ToolCallChunk readFileCall, ToolCallChunk unprintableCall],
              streamError = None\<rparr>, w)),
      invokeTool = (\<lambda>c w.
        (if c = readFileCall then Inr [LanguageModelTextPart (js ''contents'')]
         else Inl (js ''unknown tool''), w)),
      isCancellationRequested = (\<lambda>n. False)\<rparr>"

section \<open>Properties of the router and of the scorer\<close>

subsection \<open>Routing decision\<close>

lemma round_clamp: "round (max 0 (min 100 (x::rat))) = max 0 (min 100 (round x))"
proof -
  consider "x \<le> 0" | "0 \<le> x" "x \<le> 100" | "100 \<le> x" by linarith
  then show ?thesis
  proof cases
    case 1
    from round_mono [OF 1] have "round x \<le> 0" by simp
    with 1 show ?thesis by (simp add: max_def min_def)
  next
    case 2
    from round_mono [OF 2(1)] round_mono [OF 2(2)] have "0 \<le> round x" "round x \<le> 100" by simp_all
    with 2 show ?thesis by (simp add: max_def min_def)
  next
    case 3
    from round_mono [OF 3] have "100 \<le> round x" by simp
    with 3 show ?thesis by (simp add: max_def min_def)
  qed
qed

text \<open>
  C9. \<open>getRoutingDecision\<close> first normalizes the threshold: a threshold that is not finite
  becomes 70, any other is rounded and clamped, the result being an integer between 0 and
  100 (rounding before or after the clamp gives the same number). The tier is free exactly
  when the score is at most the normalized threshold and premium otherwise, and the score
  is returned as it came.
\<close>

theorem getRoutingDecision_spec:
  "(\<not> isFinite (freeThreshold inp) \<longrightarrow> threshold (getRoutingDecision inp) = Finite 70)
   \<and> (\<forall>x. freeThreshold inp = Finite x \<longrightarrow>
         threshold (getRoutingDecision inp) = Finite (of_int (max 0 (min 100 (round x)))))
   \<and> (\<exists>n. threshold (getRoutingDecision inp) = Finite (of_int n) \<and> 0 \<le> n \<and> n \<le> 100)
   \<and> (decision_tier (getRoutingDecision inp) = Free
         \<longleftrightarrow> numLe (score inp) (threshold (getRoutingDecision inp)))
   \<and> (decision_tier (getRoutingDecision inp) = Premium
         \<longleftrightarrow> \<not> numLe (score inp) (threshold (getRoutingDecision inp)))
   \<and> decision_score (getRoutingDecision inp) = score inp"
proof -
  have thr: "threshold (getRoutingDecision inp) = normalizeThreshold (freeThreshold inp)"
    by (simp add: getRoutingDecision_def Let_def)
  have a: "\<not> isFinite v \<Longrightarrow> normalizeThreshold v = Finite 70" for v
    by (cases v) (simp_all add: normalizeThreshold_def)
  have b: "normalizeThreshold (Finite x) = Finite (of_int (max 0 (min 100 (round x))))" for x
    by (simp add: normalizeThreshold_def round_clamp)
  have c: "\<exists>n. normalizeThreshold v = Finite (of_int n) \<and> 0 \<le> n \<and> n \<le> 100" for v
  proof (cases v)
    case (Finite x)
    show ?thesis unfolding Finite b by (rule exI [of _ "max 0 (min 100 (round x))"]) simp
  next
    case NaN
    show ?thesis unfolding NaN by (rule exI [of _ 70]) (simp add: normalizeThreshold_def)
  next
    case PosInfinity
    show ?thesis unfolding PosInfinity by (rule exI [of _ 70]) (simp add: normalizeThreshold_def)
  next
    case NegInfinity
    show ?thesis unfolding NegInfinity by (rule exI [of _ 70]) (simp add: normalizeThreshold_def)
  qed
  show ?thesis
    unfolding thr using a b c [of "freeThreshold inp"]
    by (simp add: getRoutingDecision_def Let_def)
qed

text \<open>The theorem at the threshold NaN and at the threshold 69.5.\<close>

theorem getRoutingDecision_spec_witness:
  "\<not> isFinite (freeThreshold \<lparr>score = Finite 71, freeThreshold = NaN\<rparr>)
   \<and> threshold (getRoutingDecision \<lparr>score = Finite 71, freeThreshold = NaN\<rparr>) = Finite 70
   \<and> freeThreshold \<lparr>score = Finite 70, freeThreshold = Finite (139 / 2)\<rparr> = Finite (139 / 2)
   \<and> threshold (getRoutingDecision \<lparr>score = Finite 70, freeThreshold = Finite (139 / 2)\<rparr>) = Finite 70"
proof -
  have r: "round (139 / 2 :: rat) = 70"
    by (simp add: round_def floor_eq_iff)
  have h1: "\<not> isFinite (freeThreshold \<lparr>score = Finite 71, freeThreshold = NaN\<rparr>)"
    by simp
  have h2: "freeThreshold \<lparr>score = Finite 70, freeThreshold = Finite (139 / 2)\<rparr> = Finite (139 / 2)"
    by simp
  from getRoutingDecision_spec [of "\<lparr>score = Finite 71, freeThreshold = NaN\<rparr>"] h1
  have c1: "threshold (getRoutingDecision \<lparr>score = Finite 71, freeThreshold = NaN\<rparr>) = Finite 70"
    by blast
  from getRoutingDecision_spec [of "\<lparr>score = Finite 70, freeThreshold = Finite (139 / 2)\<rparr>"] h2
  have "threshold (getRoutingDecision \<lparr>score = Finite 70, freeThreshold = Finite (139 / 2)\<rparr>)
          = Finite (of_int (max 0 (min 100 (round (139 / 2 :: rat)))))"
    by blast
  then have c2: "threshold (getRoutingDecision \<lparr>score = Finite 70, freeThreshold = Finite (139 / 2)\<rparr>) = Finite 70"
    by (simp add: r)
  from h1 c1 h2 c2 show ?thesis by blast
qed

subsection \<open>Model selection\<close>

lemma isFreeFamily_gpt4o: "isFreeFamily (js ''gpt-4o'')"
  by (simp add: isFreeFamily_def FREE_MODEL_FAMILIES_def js_def toLowerCase_def trim_def
      isWhiteSpace_def)

lemma selectModel_premium_all_free:
  assumes "allModels \<noteq> []" and "\<forall>m\<in>set allModels. isFreeFamily (model_family m)"
  shows "selectModel Premium allModels
     = Some \<lparr>model = hd allModels, tier = Free, family = model_family (hd allModels)\<rparr>"
proof -
  have "find (\<lambda>m. \<not> isFreeFamily (model_family m)) allModels = None"
    using assms(2) by (simp add: find_None_iff)
  with assms(1) show ?thesis
    by (cases allModels) (simp_all add: selectModel_def)
qed

text \<open>
  C8. The premium tier is requested and the only model available is of the free family
  \<open>gpt-4o\<close>: \<open>selectModel\<close> returns that model, and the tier of the selection is
  \<open>Free\<close>, not the premium label that the comment above the fallback announces.
\<close>

theorem selectModel_premium_fallback_tier:
  "selectModel Premium [\<lparr>model_id = js ''copilot-gpt-4o'', model_family = js ''gpt-4o''\<rparr>]
     = Some \<lparr>model = \<lparr>model_id = js ''copilot-gpt-4o'', model_family = js ''gpt-4o''\<rparr>,
             tier = Free, family = js ''gpt-4o''\<rparr>"
  by (simp add: selectModel_def isFreeFamily_gpt4o)

subsection \<open>Complexity score\<close>

lemma trim_Nil_iff: "trim s = [] \<longleftrightarrow> list_all isWhiteSpace s"
proof -
  have "dropWhile isWhiteSpace s \<noteq> [] \<Longrightarrow> \<not> isWhiteSpace (hd (dropWhile isWhiteSpace s))"
    by (rule hd_dropWhile)
  then have "dropWhile isWhiteSpace s \<noteq> [] \<Longrightarrow> \<exists>x\<in>set (dropWhile isWhiteSpace s). \<not> isWhiteSpace x"
    by (metis hd_in_set)
  then show ?thesis
    by (auto simp: trim_def dropWhile_eq_Nil_conv list_all_iff dest: set_dropWhileD)
qed

lemma foldl_applyTerm_mono:
  "\<forall>t\<in>set ts. 0 \<le> weight t \<Longrightarrow> fst a \<le> fst (foldl (applyTerm n) a ts)"
proof (induction ts arbitrary: a)
  case Nil
  then show ?case by simp
next
  case (Cons t ts)
  have "fst a \<le> fst (applyTerm n a t)"
    using Cons.prems by (simp add: applyTerm_def)
  also have "\<dots> \<le> fst (foldl (applyTerm n) (applyTerm n a t) ts)"
    using Cons.prems by (intro Cons.IH) simp
  finally show ?case by simp
qed

lemma COMPLEXITY_TERMS_weights: "\<forall>t\<in>set COMPLEXITY_TERMS. 0 \<le> weight t"
  by (simp add: COMPLEXITY_TERMS_def)

lemma score_nonempty:
  assumes "trim p \<noteq> []"
  shows "10 \<le> result_score (scorePromptComplexity p) \<and> result_score (scorePromptComplexity p) \<le> 100
         \<and> reasons (scorePromptComplexity p) \<noteq> []"
proof -
  define n where "n = trim p"
  define a3 where "a3 = (let lengthBonus = min 25 (int (length n) div 50);
            a1 = (10 + lengthBonus, if 0 < lengthBonus then [''longer prompt''] else []);
            lineCount = length (splitLines [] n);
            a2 = (if 4 \<le> lineCount then (fst a1 + 8, snd a1 @ [''multi-step structure'']) else a1);
            punctuationComplexity = length (filter isPunctuation n)
            in (if 8 \<le> punctuationComplexity
                  then (fst a2 + 7, snd a2 @ [''dense technical syntax'']) else a2))"
  have a3: "10 \<le> fst a3"
    by (simp add: a3_def Let_def pos_imp_zdiv_nonneg_iff)
  have r: "scorePromptComplexity p = \<lparr>result_score = clampScore (fst (foldl (applyTerm n) a3 COMPLEXITY_TERMS)),
     reasons = (if snd (foldl (applyTerm n) a3 COMPLEXITY_TERMS) \<noteq> [] then snd (foldl (applyTerm n) a3 COMPLEXITY_TERMS) else [''general request''])\<rparr>"
    using assms by (simp add: scorePromptComplexity_def n_def a3_def Let_def)
  have "fst a3 \<le> fst (foldl (applyTerm n) a3 COMPLEXITY_TERMS)"
    by (rule foldl_applyTerm_mono [OF COMPLEXITY_TERMS_weights])
  with a3 have "10 \<le> fst (foldl (applyTerm n) a3 COMPLEXITY_TERMS)" by linarith
  then show ?thesis
    unfolding r by (simp add: clampScore_def)
qed

text \<open>
  C10. For every prompt, \<open>scorePromptComplexity\<close> returns an integer score between 0 and
  100 and a list of reasons that is not empty. A prompt that is empty or made of white space
  only gets the score 0 and the single reason "empty prompt"; every other prompt scores at
  least 10.
\<close>

theorem scorePromptComplexity_range:
  "0 \<le> result_score (scorePromptComplexity p) \<and> result_score (scorePromptComplexity p) \<le> 100
   \<and> reasons (scorePromptComplexity p) \<noteq> []
   \<and> (list_all isWhiteSpace p \<longrightarrow>
        scorePromptComplexity p = \<lparr>result_score = 0, reasons = [''empty prompt'']\<rparr>)
   \<and> (\<not> list_all isWhiteSpace p \<longrightarrow> 10 \<le> result_score (scorePromptComplexity p))"
proof (cases "trim p = []")
  case True
  then have "scorePromptComplexity p = \<lparr>result_score = 0, reasons = [''empty prompt'']\<rparr>"
    by (simp add: scorePromptComplexity_def)
  with True show ?thesis by (simp add: trim_Nil_iff)
next
  case False
  with score_nonempty [OF False] show ?thesis by (simp add: trim_Nil_iff)
qed

text \<open>The theorem at a blank prompt and at the prompt "debug auth".\<close>

theorem scorePromptComplexity_range_witness:
  "list_all isWhiteSpace [32, 9, 10] \<and>
   scorePromptComplexity [32, 9, 10] = \<lparr>result_score = 0, reasons = [''empty prompt'']\<rparr> \<and>
   \<not> list_all isWhiteSpace (js ''debug auth'') \<and>
   10 \<le> result_score (scorePromptComplexity (js ''debug auth''))"
  using scorePromptComplexity_range [of "[32, 9, 10]"] scorePromptComplexity_range [of "js ''debug auth''"]
  by (simp add: isWhiteSpace_def js_def)

section \<open>Properties of the loop\<close>

subsection \<open>Effects of the parts of a round\<close>

declare runRounds.simps [simp del]

lemma emit_simps [simp]:
  "messages (emit e st) = messages st" "trace (emit e st) = trace st @ [e]"
  "world (emit e st) = world st" "clock (emit e st) = clock st"
  by (simp_all add: emit_def)

lemma tick_simps [simp]:
  "messages (tick st) = messages st" "trace (tick st) = trace st"
  "world (tick st) = world st" "clock (tick st) = Suc (clock st)"
  by (simp_all add: tick_def)

lemma requestsOf_append [simp]: "requestsOf (xs @ ys) = requestsOf xs @ requestsOf ys"
  by (induction xs rule: requestsOf.induct) simp_all

lemma invocationsOf_append [simp]: "invocationsOf (xs @ ys) = invocationsOf xs @ invocationsOf ys"
  by (induction xs rule: invocationsOf.induct) simp_all

lemma chatOf_append [simp]: "chatOf (xs @ ys) = chatOf xs @ chatOf ys"
  by (induction xs rule: chatOf.induct) simp_all

lemma callsIn_append [simp]: "callsIn (xs @ ys) = callsIn xs @ callsIn ys"
  by (induction xs rule: callsIn.induct) simp_all

lemma textsOf_append [simp]: "textsOf (xs @ ys) = textsOf xs @ textsOf ys"
  by (induction xs rule: textsOf.induct) simp_all

lemma callsOf_append [simp]: "callsOf (xs @ ys) = callsOf xs @ callsOf ys"
  by (induction xs rule: callsOf.induct) simp_all

lemma newEvents_append [simp]: "trace st' = trace st @ evs \<Longrightarrow> newEvents st st' = evs"
  by (simp add: newEvents_def)

text \<open>Reading the stream: what holds whatever the token answers.\<close>

lemma consumeStream_effect:
  "consumeStream env cs err (tcs, ps) st = (r, (tcs', ps'), st') \<Longrightarrow>
     messages st' = messages st \<and> world st' = world st \<and> clock st \<le> clock st' \<and>
     (tcs = callsIn ps \<longrightarrow> tcs' = callsIn ps') \<and>
     (\<exists>evs. trace st' = trace st @ evs \<and> requestsOf evs = [] \<and> invocationsOf evs = []
        \<and> (\<forall>e. ModelErrorMd e \<notin> set (chatOf evs)))"
proof (induction cs arbitrary: tcs ps st)
  case Nil
  then show ?case by simp
next
  case (Cons c cs)
  show ?case
  proof (cases "isCancellationRequested env (clock st)")
    case True
    with Cons.prems show ?thesis by auto
  next
    case False
    show ?thesis
    proof (cases c)
      case (TextChunk v)
      with False Cons.prems
      have "consumeStream env cs err (tcs, ps @ [AssistantText v]) (emit (Markdown (TextMd v)) (tick st))
              = (r, (tcs', ps'), st')" by simp
      from Cons.IH [OF this] show ?thesis by auto
    next
      case (ToolCallChunk tc)
      with False Cons.prems
      have "consumeStream env cs err (tcs @ [tc], ps @ [AssistantToolCall tc])
              (emit (AppendLine (LogToolCall tc)) (tick st)) = (r, (tcs', ps'), st')" by simp
      from Cons.IH [OF this] show ?thesis by auto
    next
      case OtherChunk
      with False Cons.prems
      have "consumeStream env cs err (tcs, ps) (tick st) = (r, (tcs', ps'), st')" by simp
      from Cons.IH [OF this] show ?thesis by auto
    qed
  qed
qed

text \<open>
  Reading the stream when the token first answers yes at the chunk of index \<open>k\<close>, or never
  during the stream (\<open>k = length cs\<close>).
\<close>

lemma consumeStream_run:
  assumes "\<forall>j<k. \<not> isCancellationRequested env (clock st + j)"
    and "k \<le> length cs"
    and "k < length cs \<longrightarrow> isCancellationRequested env (clock st + k)"
  shows "\<exists>ps' st'. consumeStream env cs err (tcs, ps) st
            = (if k < length cs then None else err, (tcs @ callsOf (take k cs), ps'), st')
          \<and> callsIn ps' = callsIn ps @ callsOf (take k cs)
          \<and> messages st' = messages st \<and> world st' = world st
          \<and> clock st' = clock st + k + (if k < length cs then 1 else 0)
          \<and> (\<exists>evs. trace st' = trace st @ evs \<and> requestsOf evs = [] \<and> invocationsOf evs = []
                \<and> chatOf evs = map TextMd (textsOf (take k cs)))"
  using assms
proof (induction cs arbitrary: k tcs ps st)
  case Nil
  then show ?case by simp
next
  case (Cons c cs)
  show ?case
  proof (cases k)
    case 0
    with Cons.prems show ?thesis by simp
  next
    case (Suc k')
    with Cons.prems have nc: "\<not> isCancellationRequested env (clock st)" by auto
    have h1: "\<forall>j<k'. \<not> isCancellationRequested env (clock (tick st) + j)"
      using Cons.prems(1) Suc by auto
    have h2: "k' \<le> length cs" using Cons.prems(2) Suc by simp
    have h3: "k' < length cs \<longrightarrow> isCancellationRequested env (clock (tick st) + k')"
      using Cons.prems(3) Suc by simp
    show ?thesis
    proof (cases c)
      case (TextChunk v)
      from Cons.IH [of k' "emit (Markdown (TextMd v)) (tick st)" tcs "ps @ [AssistantText v]"] h1 h2 h3
      show ?thesis using nc TextChunk Suc by auto
    next
      case (ToolCallChunk tc)
      from Cons.IH [of k' "emit (AppendLine (LogToolCall tc)) (tick st)" "tcs @ [tc]" "ps @ [AssistantToolCall tc]"] h1 h2 h3
      show ?thesis using nc ToolCallChunk Suc by auto
    next
      case OtherChunk
      from Cons.IH [of k' "tick st" tcs ps] h1 h2 h3
      show ?thesis using nc OtherChunk Suc by auto
    qed
  qed
qed



lemma runToolCall_effect:
  "runToolCall env c st = (Inr r, st') \<Longrightarrow>
     (\<exists>s. summarizeToolCall (name c) (input c) = Inr s) \<and>
     resultCallId r = callId c \<and> messages st' = messages st \<and> clock st' = clock st \<and>
     (\<exists>out w. invokeTool env c (world st) = (out, w) \<and> content r = resultContentFor c out) \<and>
     (\<exists>evs. trace st' = trace st @ evs \<and> requestsOf evs = [] \<and> invocationsOf evs = [c]
        \<and> (\<forall>e. ModelErrorMd e \<notin> set (chatOf evs)))"
  by (auto simp: runToolCall_def resultContentFor_def Let_def split: prod.splits sum.splits)

lemma runToolCall_throws:
  "runToolCall env c st = (Inl err, st') \<Longrightarrow>
     summarizeToolCall (name c) (input c) = Inl err \<and> st' = st"
  by (auto simp: runToolCall_def Let_def split: prod.splits sum.splits)

lemma runToolCalls_effect:
  "runToolCalls env cs rs st = (res, st') \<Longrightarrow>
     messages st' = messages st \<and> clock st \<le> clock st' \<and>
     (\<exists>evs k. trace st' = trace st @ evs \<and> requestsOf evs = []
        \<and> invocationsOf evs = take k cs
        \<and> (\<forall>e. ModelErrorMd e \<notin> set (chatOf evs))
        \<and> (\<forall>rs'. res = Inr rs' \<longrightarrow>
              (\<exists>new. rs' = rs @ new \<and> map resultCallId new = map callId (take k cs)))
        \<and> (\<forall>err. res = Inl err \<longrightarrow>
              (\<exists>c\<in>set cs. summarizeToolCall (name c) (input c) = Inl err)))"
proof (induction cs arbitrary: rs st)
  case Nil
  then show ?case by auto
next
  case (Cons c cs)
  show ?case
  proof (cases "isCancellationRequested env (clock st)")
    case True
    with Cons.prems have "res = Inr rs" "st' = tick st" by simp_all
    then show ?thesis
      by (auto intro!: exI [of _ "[]"] exI [of _ "0::nat"])
  next
    case False
    obtain one st1 where one: "runToolCall env c (tick st) = (one, st1)"
      by (cases "runToolCall env c (tick st)")
    show ?thesis
    proof (cases one)
      case (Inl err)
      with one False Cons.prems have r: "res = Inl err" "st' = st1" by simp_all
      from runToolCall_throws [OF one [unfolded Inl]] have
        "summarizeToolCall (name c) (input c) = Inl err" "st1 = tick st" by simp_all
      with r show ?thesis
        by (auto intro!: exI [of _ "[]"] exI [of _ "0::nat"])
    next
      case (Inr r)
      with one False Cons.prems have rest: "runToolCalls env cs (rs @ [r]) st1 = (res, st')" by simp
      from runToolCall_effect [OF one [unfolded Inr]] obtain evs1 where e1:
        "resultCallId r = callId c" "messages st1 = messages st" "clock st1 = Suc (clock st)"
        "trace st1 = trace st @ evs1" "requestsOf evs1 = []" "invocationsOf evs1 = [c]"
        "\<forall>e. ModelErrorMd e \<notin> set (chatOf evs1)" by auto
      from Cons.IH [OF rest] obtain evs2 k where e2:
        "messages st' = messages st1" "clock st1 \<le> clock st'"
        "trace st' = trace st1 @ evs2" "requestsOf evs2 = []" "invocationsOf evs2 = take k cs"
        "\<forall>e. ModelErrorMd e \<notin> set (chatOf evs2)"
        "\<forall>rs'. res = Inr rs' \<longrightarrow>
              (\<exists>new. rs' = (rs @ [r]) @ new \<and> map resultCallId new = map callId (take k cs))"
        "\<forall>err. res = Inl err \<longrightarrow> (\<exists>c\<in>set cs. summarizeToolCall (name c) (input c) = Inl err)"
        by auto
      have results: "\<forall>rs'. res = Inr rs' \<longrightarrow>
              (\<exists>new. rs' = rs @ new \<and> map resultCallId new = map callId (take (Suc k) (c # cs)))"
      proof (intro allI impI)
        fix rs' assume "res = Inr rs'"
        with e2(7) obtain new where "rs' = (rs @ [r]) @ new" "map resultCallId new = map callId (take k cs)"
          by blast
        with e1(1) have "rs' = rs @ (r # new) \<and> map resultCallId (r # new) = map callId (take (Suc k) (c # cs))"
          by simp
        then show "\<exists>new. rs' = rs @ new \<and> map resultCallId new = map callId (take (Suc k) (c # cs))"
          by blast
      qed
      have "trace st' = trace st @ (evs1 @ evs2) \<and> requestsOf (evs1 @ evs2) = []
          \<and> invocationsOf (evs1 @ evs2) = take (Suc k) (c # cs)
          \<and> (\<forall>e. ModelErrorMd e \<notin> set (chatOf (evs1 @ evs2)))
          \<and> (\<forall>rs'. res = Inr rs' \<longrightarrow>
              (\<exists>new. rs' = rs @ new \<and> map resultCallId new = map callId (take (Suc k) (c # cs))))
          \<and> (\<forall>err. res = Inl err \<longrightarrow> (\<exists>c'\<in>set (c # cs). summarizeToolCall (name c') (input c') = Inl err))"
        using e1 e2 results by simp
      then have "\<exists>evs k. trace st' = trace st @ evs \<and> requestsOf evs = []
          \<and> invocationsOf evs = take k (c # cs)
          \<and> (\<forall>e. ModelErrorMd e \<notin> set (chatOf evs))
          \<and> (\<forall>rs'. res = Inr rs' \<longrightarrow>
              (\<exists>new. rs' = rs @ new \<and> map resultCallId new = map callId (take k (c # cs))))
          \<and> (\<forall>err. res = Inl err \<longrightarrow> (\<exists>c'\<in>set (c # cs). summarizeToolCall (name c') (input c') = Inl err))"
        by blast
      with e1 e2 show ?thesis by simp
    qed
  qed
qed

lemma runRound_effect:
  assumes "runRound env agentTools rnd st = (r, st')"
  shows "\<exists>evs. trace st' = trace st @ evs \<and> clock st \<le> clock st'
          \<and> set (requestsOf evs) \<subseteq> {messages st} \<and> length (requestsOf evs) \<le> 1
          \<and> prefix (messages st) (messages st')
          \<and> (r = Break \<longrightarrow> messages st' = messages st \<and> invocationsOf evs = [])
          \<and> (r = NextRound \<longrightarrow> requestsOf evs = [messages st]
                \<and> (\<forall>e. ModelErrorMd e \<notin> set (chatOf evs))
                \<and> (\<exists>assistantParts toolResults.
                      messages st' = messages st @ [Assistant assistantParts, UserToolResults toolResults]
                    \<and> map resultCallId toolResults = map callId (invocationsOf evs)
                    \<and> prefix (invocationsOf evs) (callsIn assistantParts)))"
proof (cases "isCancellationRequested env (clock st)")
  case True
  with assms have "r = Break" "st' = tick st" by (simp_all add: runRound_def)
  then show ?thesis by simp
next
  case False
  define st2 where "st2 = emit (SendRequest (messages st) agentTools) (emit (AppendLine (LogRound (rnd + 1))) (tick st))"
  obtain res w where send: "sendRequest env (messages st) agentTools (world st) = (res, w)"
    by (cases "sendRequest env (messages st) agentTools (world st)")
  show ?thesis
  proof (cases res)
    case (Inl e)
    with assms False send have "r = Break" "st' = emit (Markdown (ModelErrorMd e)) (st2\<lparr>world := w\<rparr>)"
      by (simp_all add: runRound_def Let_def st2_def)
    then show ?thesis by (simp add: st2_def)
  next
    case (Inr resp)
    obtain r0 tcs ps st3 where cons:
      "consumeStream env (chunks resp) (streamError resp) ([], []) (st2\<lparr>world := w\<rparr>) = (r0, (tcs, ps), st3)"
      by (metis prod.exhaust)
    from consumeStream_effect [OF cons] obtain evs3 where c3:
      "messages st3 = messages st" "clock st \<le> clock st3" "tcs = callsIn ps"
      "trace st3 = trace st @ [AppendLine (LogRound (rnd + 1)), SendRequest (messages st) agentTools] @ evs3"
      "requestsOf evs3 = []" "invocationsOf evs3 = []" "\<forall>e. ModelErrorMd e \<notin> set (chatOf evs3)"
      by (auto simp: st2_def)
    show ?thesis
    proof (cases r0)
      case (Some e)
      with assms False send Inr cons have "r = Throw e" "st' = st3"
        by (simp_all add: runRound_def Let_def st2_def)
      with c3 show ?thesis by simp
    next
      case None
      show ?thesis
      proof (cases "tcs = []")
        case True
        with assms False send Inr cons None
        have "r = Break" "st' = emit (AppendLine (LogFinished (rnd + 1))) st3"
          by (simp_all add: runRound_def Let_def st2_def)
        with c3 show ?thesis by simp
      next
        case nonempty: False
        obtain res5 st5 where tools:
          "runToolCalls env tcs [] (st3\<lparr>messages := messages st3 @ [Assistant ps]\<rparr>) = (res5, st5)"
          by (metis prod.exhaust)
        from runToolCalls_effect [OF tools] obtain evs5 k where c5:
          "messages st5 = messages st @ [Assistant ps]" "clock st3 \<le> clock st5"
          "trace st5 = trace st3 @ evs5" "requestsOf evs5 = []" "invocationsOf evs5 = take k tcs"
          "\<forall>e. ModelErrorMd e \<notin> set (chatOf evs5)"
          "\<forall>rs'. res5 = Inr rs' \<longrightarrow> (\<exists>new. rs' = [] @ new \<and> map resultCallId new = map callId (take k tcs))"
          using c3 by auto
        have pre: "prefix (take k tcs) (callsIn ps)"
          using c3(3) by (simp add: take_is_prefix)
        show ?thesis
        proof (cases res5)
          case (Inl err)
          with assms False send Inr cons None nonempty tools
          have "r = Throw err" "st' = st5"
            by (simp_all add: runRound_def Let_def st2_def)
          with c3 c5 show ?thesis by simp
        next
          case (Inr results)
          with assms False send \<open>res = Inr resp\<close> cons None nonempty tools
          have res: "r = NextRound" "st' = st5\<lparr>messages := messages st5 @ [UserToolResults results]\<rparr>"
            by (simp_all add: runRound_def Let_def st2_def)
          from c5(7) Inr have "map resultCallId results = map callId (take k tcs)" by simp
          with res c3 c5 pre show ?thesis by simp
        qed
      qed
    qed
  qed
qed

lemma runToolCalls_all:
  assumes nc: "\<forall>n. \<not> isCancellationRequested env n"
    and renders: "\<forall>c\<in>set cs. \<exists>s. summarizeToolCall (name c) (input c) = Inr s"
    and run: "runToolCalls env cs rs st = (res, st')"
  shows "\<exists>rs'. res = Inr rs' \<and> set rs \<subseteq> set rs' \<and> length rs' = length rs + length cs
       \<and> (\<forall>c\<in>set cs. \<forall>out. (\<forall>w. \<exists>w'. invokeTool env c w = (out, w')) \<longrightarrow>
             LanguageModelToolResultPart (callId c) (resultContentFor c out) \<in> set rs')
       \<and> (\<exists>evs. trace st' = trace st @ evs \<and> invocationsOf evs = cs)"
  using renders run
proof (induction cs arbitrary: rs st)
  case Nil
  then show ?case by auto
next
  case (Cons c cs)
  obtain one st1 where one: "runToolCall env c (tick st) = (one, st1)"
    by (cases "runToolCall env c (tick st)")
  from Cons.prems(1) obtain s where s: "summarizeToolCall (name c) (input c) = Inr s" by auto
  have "\<exists>r. one = Inr r"
  proof (cases one)
    case (Inl err)
    with runToolCall_throws [of env c "tick st" err st1] one s show ?thesis by simp
  qed simp
  then obtain r where r: "one = Inr r" by blast
  with nc one Cons.prems(2) have rest: "runToolCalls env cs (rs @ [r]) st1 = (res, st')" by simp
  from runToolCall_effect [OF one [unfolded r]] obtain evs1 out0 w0 where e1:
    "trace st1 = trace st @ evs1" "invocationsOf evs1 = [c]" "resultCallId r = callId c"
    "invokeTool env c (world st) = (out0, w0)" "content r = resultContentFor c out0" by auto
  have err: "r = LanguageModelToolResultPart (callId c) (resultContentFor c out)"
    if "\<forall>w. \<exists>w'. invokeTool env c w = (out, w')" for out
  proof -
    from that obtain w' where "invokeTool env c (world st) = (out, w')" by blast
    with e1(4) have "out0 = out" by simp
    with e1(3,5) show ?thesis by (cases r) simp
  qed
  from Cons.prems(1) have "\<forall>c\<in>set cs. \<exists>s. summarizeToolCall (name c) (input c) = Inr s" by simp
  from Cons.IH [OF this rest] obtain rs' evs2 where e2:
    "res = Inr rs'"
    "set (rs @ [r]) \<subseteq> set rs'" "length rs' = length (rs @ [r]) + length cs"
    "\<forall>c\<in>set cs. \<forall>out. (\<forall>w. \<exists>w'. invokeTool env c w = (out, w')) \<longrightarrow>
        LanguageModelToolResultPart (callId c) (resultContentFor c out) \<in> set rs'"
    "trace st' = trace st1 @ evs2" "invocationsOf evs2 = cs" by auto
  have "trace st' = trace st @ (evs1 @ evs2) \<and> invocationsOf (evs1 @ evs2) = c # cs"
    using e1 e2 by simp
  then have "\<exists>evs. trace st' = trace st @ evs \<and> invocationsOf evs = c # cs" by blast
  moreover have "\<forall>c'\<in>set (c # cs). \<forall>out. (\<forall>w. \<exists>w'. invokeTool env c' w = (out, w')) \<longrightarrow>
        LanguageModelToolResultPart (callId c') (resultContentFor c' out) \<in> set rs'"
    using e2(2,4) err by auto
  ultimately show ?case using e2(1,2,3) by simp
qed

lemma consumeStream_error:
  "consumeStream env cs err acc st = (Some e, acc', st') \<Longrightarrow> err = Some e"
proof (induction cs arbitrary: acc st)
  case Nil
  then show ?case by simp
next
  case (Cons c cs)
  obtain tcs ps where acc: "acc = (tcs, ps)" by (cases acc)
  from Cons.prems show ?case
    unfolding acc by (cases c) (auto split: if_splits dest: Cons.IH)
qed

lemma consumeStream_no_calls:
  "callsOf cs = [] \<Longrightarrow> consumeStream env cs err (tcs, ps) st = (r, (tcs', ps'), st') \<Longrightarrow> tcs' = tcs"
proof (induction cs arbitrary: ps st)
  case Nil
  then show ?case by simp
next
  case (Cons c cs)
  then show ?case
    by (cases c) (auto split: if_splits)
qed

lemma runRound_request:
  assumes "\<not> isCancellationRequested env (clock st)"
    and "runRound env agentTools rnd st = (r, st')"
  shows "\<exists>evs. trace st' = trace st @ evs \<and> requestsOf evs = [messages st]"
proof -
  from runRound_effect [OF assms(2)] obtain evs where evs:
    "trace st' = trace st @ evs" "set (requestsOf evs) \<subseteq> {messages st}" "length (requestsOf evs) \<le> 1"
    by blast
  define st2 where "st2 = emit (SendRequest (messages st) agentTools) (emit (AppendLine (LogRound (rnd + 1))) (tick st))"
  have "\<exists>evs'. trace st' = trace st2 @ evs'"
  proof -
    obtain res w where send: "sendRequest env (messages st) agentTools (world st) = (res, w)"
      by (cases "sendRequest env (messages st) agentTools (world st)")
    show ?thesis
    proof (cases res)
      case (Inl e)
      with assms send have "st' = emit (Markdown (ModelErrorMd e)) (st2\<lparr>world := w\<rparr>)"
        by (simp add: runRound_def Let_def st2_def)
      then show ?thesis by simp
    next
      case (Inr resp)
      obtain r0 tcs ps st3 where cons:
        "consumeStream env (chunks resp) (streamError resp) ([], []) (st2\<lparr>world := w\<rparr>) = (r0, (tcs, ps), st3)"
        by (metis prod.exhaust)
      from consumeStream_effect [OF cons] obtain evs3 where c3: "trace st3 = trace st2 @ evs3" by auto
      obtain res5 st5 where tools:
        "runToolCalls env tcs [] (st3\<lparr>messages := messages st3 @ [Assistant ps]\<rparr>) = (res5, st5)"
        by (metis prod.exhaust)
      from runToolCalls_effect [OF tools] obtain evs5 where c5: "trace st5 = trace st3 @ evs5" by auto
      from assms send Inr cons tools c3 c5 show ?thesis
        by (cases r0; cases "tcs = []"; cases res5) (auto simp: runRound_def Let_def st2_def)
    qed
  qed
  then obtain evs' where "trace st' = trace st @ [AppendLine (LogRound (rnd + 1)), SendRequest (messages st) agentTools] @ evs'"
    by (auto simp: st2_def)
  with evs(1) have "evs = [AppendLine (LogRound (rnd + 1)), SendRequest (messages st) agentTools] @ evs'" by simp
  with evs(3) have "requestsOf evs = [messages st]" by simp
  with evs(1) show ?thesis by blast
qed


text \<open>
  A round in which the token never answers yes, the stream ends normally and holds a tool
  call, and the summary of every call can be written.
\<close>

lemma runRound_continues:
  assumes nc: "\<forall>n. \<not> isCancellationRequested env n"
    and send: "sendRequest env (messages st) agentTools (world st) = (Inr resp, w)"
    and ok: "streamError resp = None"
    and calls: "callsOf (chunks resp) \<noteq> []"
    and renders: "\<forall>c\<in>set (callsOf (chunks resp)). \<exists>s. summarizeToolCall (name c) (input c) = Inr s"
  shows "\<exists>st' assistantParts toolResults evs.
           runRound env agentTools rnd st = (NextRound, st')
         \<and> messages st' = messages st @ [Assistant assistantParts, UserToolResults toolResults]
         \<and> callsIn assistantParts = callsOf (chunks resp)
         \<and> length toolResults = length (callsOf (chunks resp))
         \<and> (\<forall>c\<in>set (callsOf (chunks resp)). \<forall>out. (\<forall>w. \<exists>w'. invokeTool env c w = (out, w')) \<longrightarrow>
               LanguageModelToolResultPart (callId c) (resultContentFor c out) \<in> set toolResults)
         \<and> trace st' = trace st @ evs \<and> requestsOf evs = [messages st]
         \<and> invocationsOf evs = callsOf (chunks resp)
         \<and> (\<forall>e. ModelErrorMd e \<notin> set (chatOf evs))"
proof -
  define st2 where "st2 = (emit (SendRequest (messages st) agentTools) (emit (AppendLine (LogRound (rnd + 1))) (tick st)))\<lparr>world := w\<rparr>"
  from consumeStream_run [of "length (chunks resp)" env st2 "chunks resp" "streamError resp" "[]" "[]"] nc
  obtain ps st3 evs3 where c3:
    "consumeStream env (chunks resp) (streamError resp) ([], []) st2 = (None, (callsOf (chunks resp), ps), st3)"
    "callsIn ps = callsOf (chunks resp)" "messages st3 = messages st2"
    "trace st3 = trace st2 @ evs3" "requestsOf evs3 = []" "invocationsOf evs3 = []"
    "chatOf evs3 = map TextMd (textsOf (chunks resp))"
    using ok by auto
  obtain res5 st5 where tools:
    "runToolCalls env (callsOf (chunks resp)) [] (st3\<lparr>messages := messages st3 @ [Assistant ps]\<rparr>) = (res5, st5)"
    by (metis prod.exhaust)
  from runToolCalls_effect [OF tools] obtain evs5 where c5:
    "messages st5 = messages st3 @ [Assistant ps]" "trace st5 = trace st3 @ evs5"
    "requestsOf evs5 = []" "\<forall>e. ModelErrorMd e \<notin> set (chatOf evs5)" by auto
  from runToolCalls_all [OF nc renders tools] obtain results where a5:
    "res5 = Inr results"
    "length results = length (callsOf (chunks resp))"
    "\<forall>c\<in>set (callsOf (chunks resp)). \<forall>out. (\<forall>w. \<exists>w'. invokeTool env c w = (out, w')) \<longrightarrow>
        LanguageModelToolResultPart (callId c) (resultContentFor c out) \<in> set results"
    "invocationsOf evs5 = callsOf (chunks resp)"
    using c5(2) by auto
  have run: "runRound env agentTools rnd st = (NextRound, st5\<lparr>messages := messages st5 @ [UserToolResults results]\<rparr>)"
    using nc send c3(1) calls tools a5(1) by (simp add: runRound_def Let_def st2_def)
  have tr: "trace (st5\<lparr>messages := messages st5 @ [UserToolResults results]\<rparr>)
      = trace st @ ([AppendLine (LogRound (rnd + 1)), SendRequest (messages st) agentTools] @ evs3 @ evs5)"
    using c3 c5 by (simp add: st2_def)
  have ch: "\<forall>e. ModelErrorMd e \<notin> set (chatOf ([AppendLine (LogRound (rnd + 1)), SendRequest (messages st) agentTools] @ evs3 @ evs5))"
    using c3(7) c5(4) by auto
  show ?thesis
    apply (rule exI [of _ "st5\<lparr>messages := messages st5 @ [UserToolResults results]\<rparr>"])
    apply (rule exI [of _ ps])
    apply (rule exI [of _ results])
    apply (rule exI [of _ "[AppendLine (LogRound (rnd + 1)), SendRequest (messages st) agentTools] @ evs3 @ evs5"])
    using run tr ch c3 c5 a5 by (simp add: st2_def)
qed

lemma runRounds_effect:
  "runRounds env agentTools rnd st = (out, st') \<Longrightarrow>
     \<exists>evs. trace st' = trace st @ evs \<and> length (requestsOf evs) \<le> MAX_TOOL_ROUNDS - rnd
       \<and> prefix (messages st) (messages st')"
proof (induction env agentTools rnd st rule: runRounds.induct)
  case (1 env agentTools rnd st)
  show ?case
  proof (cases "rnd < MAX_TOOL_ROUNDS")
    case False
    with "1.prems" show ?thesis by (simp add: runRounds.simps)
  next
    case True
    obtain r st1 where one: "runRound env agentTools rnd st = (r, st1)"
      by (cases "runRound env agentTools rnd st")
    from runRound_effect [OF one] obtain evs1 where e1:
      "trace st1 = trace st @ evs1" "length (requestsOf evs1) \<le> 1" "prefix (messages st) (messages st1)"
      by blast
    show ?thesis
    proof (cases r)
      case NextRound
      with True one "1.prems" have rest: "runRounds env agentTools (rnd + 1) st1 = (out, st')"
        by (simp add: runRounds.simps)
      from "1.IH" [OF True one [symmetric] NextRound rest] obtain evs2 where e2:
        "trace st' = trace st1 @ evs2" "length (requestsOf evs2) \<le> MAX_TOOL_ROUNDS - (rnd + 1)"
        "prefix (messages st1) (messages st')" by blast
      have "trace st' = trace st @ (evs1 @ evs2) \<and> length (requestsOf (evs1 @ evs2)) \<le> MAX_TOOL_ROUNDS - rnd"
        using e1 e2 True by simp
      moreover have "prefix (messages st) (messages st')"
        using e1(3) e2(3) by (rule prefix_order.trans)
      ultimately show ?thesis by blast
    next
      case Break
      with True one "1.prems" have "st' = st1" by (simp add: runRounds.simps)
      with e1 True show ?thesis by (intro exI [of _ evs1]) simp
    next
      case (Throw e)
      with True one "1.prems" have "st' = st1" by (simp add: runRounds.simps)
      with e1 True show ?thesis by (intro exI [of _ evs1]) simp
    qed
  qed
qed

subsection \<open>The loop over the rounds\<close>

lemma runRounds_Break:
  "rnd < MAX_TOOL_ROUNDS \<Longrightarrow> runRound env agentTools rnd st = (Break, st') \<Longrightarrow>
     runRounds env agentTools rnd st = (Returned, st')"
  by (simp add: runRounds.simps)

lemma runRounds_Throw:
  "rnd < MAX_TOOL_ROUNDS \<Longrightarrow> runRound env agentTools rnd st = (Throw e, st') \<Longrightarrow>
     runRounds env agentTools rnd st = (Threw e, st')"
  by (simp add: runRounds.simps)

lemma runRounds_NextRound:
  "rnd < MAX_TOOL_ROUNDS \<Longrightarrow> runRound env agentTools rnd st = (NextRound, st') \<Longrightarrow>
     runRounds env agentTools rnd st = runRounds env agentTools (rnd + 1) st'"
  by (simp add: runRounds.simps)

lemma runRounds_exhausted:
  "\<not> rnd < MAX_TOOL_ROUNDS \<Longrightarrow> runRounds env agentTools rnd st = (Returned, st)"
  by (simp add: runRounds.simps)


text \<open>
  The run when the token never answers yes, every response ends normally and holds a tool
  call, and the summary of every call can be written.
\<close>

lemma runRounds_full:
  assumes nc: "\<forall>n. \<not> isCancellationRequested env n"
    and model: "\<forall>ms ts w. \<exists>resp w'. sendRequest env ms ts w = (Inr resp, w')
                  \<and> streamError resp = None \<and> callsOf (chunks resp) \<noteq> []
                  \<and> (\<forall>c\<in>set (callsOf (chunks resp)). \<exists>s. summarizeToolCall (name c) (input c) = Inr s)"
  shows "\<exists>st' evs. runRounds env agentTools rnd st = (Returned, st') \<and> trace st' = trace st @ evs
           \<and> length (requestsOf evs) = MAX_TOOL_ROUNDS - rnd
           \<and> (\<forall>e. ModelErrorMd e \<notin> set (chatOf evs))"
  using assms
proof (induction env agentTools rnd st rule: runRounds.induct)
  case (1 env agentTools rnd st)
  show ?case
  proof (cases "rnd < MAX_TOOL_ROUNDS")
    case False
    then show ?thesis by (simp add: runRounds_exhausted)
  next
    case True
    from "1.prems"(2) obtain resp w where send:
      "sendRequest env (messages st) agentTools (world st) = (Inr resp, w)"
      "streamError resp = None" "callsOf (chunks resp) \<noteq> []"
      "\<forall>c\<in>set (callsOf (chunks resp)). \<exists>s. summarizeToolCall (name c) (input c) = Inr s" by blast
    from runRound_continues [OF "1.prems"(1) send, of rnd] obtain st1 evs1 where r1:
      "runRound env agentTools rnd st = (NextRound, st1)" "trace st1 = trace st @ evs1"
      "requestsOf evs1 = [messages st]" "\<forall>e. ModelErrorMd e \<notin> set (chatOf evs1)" by blast
    from "1.IH" [OF True r1(1) [symmetric] refl "1.prems"] obtain st' evs2 where r2:
      "runRounds env agentTools (rnd + 1) st1 = (Returned, st')" "trace st' = trace st1 @ evs2"
      "length (requestsOf evs2) = MAX_TOOL_ROUNDS - (rnd + 1)"
      "\<forall>e. ModelErrorMd e \<notin> set (chatOf evs2)" by blast
    have "runRounds env agentTools rnd st = (Returned, st') \<and> trace st' = trace st @ (evs1 @ evs2)
        \<and> length (requestsOf (evs1 @ evs2)) = MAX_TOOL_ROUNDS - rnd
        \<and> (\<forall>e. ModelErrorMd e \<notin> set (chatOf (evs1 @ evs2)))"
      using True r1 r2 runRounds_NextRound [OF True r1(1)] by auto
    then show ?thesis by blast
  qed
qed



lemma runAgentLoop_unfold:
  "runAgentLoop env userPrompt w =
     runRounds env (filter (prefix AGENT_TOOL_PREFIX) (lmTools env)) 0
       ((if filter (prefix AGENT_TOOL_PREFIX) (lmTools env) = []
         then emit (AppendLine LogNoTools) \<lparr>messages = [], trace = [], world = w, clock = 0\<rparr>
         else \<lparr>messages = [], trace = [], world = w, clock = 0\<rparr>)
        \<lparr>messages := [User (SYSTEM_PROMPT @ js ''\<newline>\<newline>User request: '' @ userPrompt)]\<rparr>)"
  by (simp add: runAgentLoop_def Let_def)

lemma requestsOf_initial:
  "requestsOf (trace ((if b then emit (AppendLine LogNoTools) \<lparr>messages = [], trace = [], world = w, clock = 0\<rparr>
         else \<lparr>messages = [], trace = [], world = w, clock = 0\<rparr>) \<lparr>messages := ms\<rparr>)) = []"
  "chatOf (trace ((if b then emit (AppendLine LogNoTools) \<lparr>messages = [], trace = [], world = w, clock = 0\<rparr>
         else \<lparr>messages = [], trace = [], world = w, clock = 0\<rparr>) \<lparr>messages := ms\<rparr>)) = []"
  "invocationsOf (trace ((if b then emit (AppendLine LogNoTools) \<lparr>messages = [], trace = [], world = w, clock = 0\<rparr>
         else \<lparr>messages = [], trace = [], world = w, clock = 0\<rparr>) \<lparr>messages := ms\<rparr>)) = []"
  by simp_all


text \<open>The bound of the rounds: in every session at most 15 requests are sent.\<close>

lemma round_budget_bound:
  "length (requestsOf (trace (snd (runAgentLoop env userPrompt w)))) \<le> MAX_TOOL_ROUNDS"
proof -
  define tl where "tl = filter (prefix AGENT_TOOL_PREFIX) (lmTools env)"
  define st0 where "st0 = (if tl = []
         then emit (AppendLine LogNoTools) \<lparr>messages = [], trace = [], world = w, clock = 0\<rparr>
         else \<lparr>messages = [], trace = [], world = w, clock = 0\<rparr>)
        \<lparr>messages := [User (SYSTEM_PROMPT @ js ''\<newline>\<newline>User request: '' @ userPrompt)]\<rparr>"
  have run: "runAgentLoop env userPrompt w = runRounds env tl 0 st0"
    by (simp add: runAgentLoop_unfold tl_def st0_def)
  have init: "requestsOf (trace st0) = []"
    by (simp add: st0_def)
  obtain out st' where fin: "runRounds env tl 0 st0 = (out, st')"
    by (cases "runRounds env tl 0 st0")
  from runRounds_effect [OF fin] obtain evs where
    "trace st' = trace st0 @ evs" "length (requestsOf evs) \<le> MAX_TOOL_ROUNDS - 0" by blast
  with init show ?thesis
    unfolding run fin by simp
qed

text \<open>
  When the token is never cancelled, every response ends normally and holds a tool call,
  and the summary of every call can be written, exactly 15 requests are sent, the loop
  returns, and no model error is written to the chat.
\<close>

lemma round_budget_exhausted:
  assumes nc: "\<forall>n. \<not> isCancellationRequested env n"
    and model: "\<forall>ms ts w. \<exists>resp w'. sendRequest env ms ts w = (Inr resp, w')
                  \<and> streamError resp = None \<and> callsOf (chunks resp) \<noteq> []
                  \<and> (\<forall>c\<in>set (callsOf (chunks resp)). \<exists>s. summarizeToolCall (name c) (input c) = Inr s)"
  shows "length (requestsOf (trace (snd (runAgentLoop env userPrompt w)))) = 15
       \<and> fst (runAgentLoop env userPrompt w) = Returned
       \<and> (\<forall>e. ModelErrorMd e \<notin> set (chatOf (trace (snd (runAgentLoop env userPrompt w)))))"
proof -
  define tl where "tl = filter (prefix AGENT_TOOL_PREFIX) (lmTools env)"
  define st0 where "st0 = (if tl = []
         then emit (AppendLine LogNoTools) \<lparr>messages = [], trace = [], world = w, clock = 0\<rparr>
         else \<lparr>messages = [], trace = [], world = w, clock = 0\<rparr>)
        \<lparr>messages := [User (SYSTEM_PROMPT @ js ''\<newline>\<newline>User request: '' @ userPrompt)]\<rparr>"
  have run: "runAgentLoop env userPrompt w = runRounds env tl 0 st0"
    by (simp add: runAgentLoop_unfold tl_def st0_def)
  have init: "requestsOf (trace st0) = []" "chatOf (trace st0) = []"
    by (simp_all add: st0_def)
  from runRounds_full [OF nc model, of tl 0 st0] obtain st' evs' where
    "runRounds env tl 0 st0 = (Returned, st')" "trace st' = trace st0 @ evs'"
    "length (requestsOf evs') = MAX_TOOL_ROUNDS - 0" "\<forall>e. ModelErrorMd e \<notin> set (chatOf evs')"
    by blast
  with init show ?thesis
    unfolding run by (simp add: MAX_TOOL_ROUNDS_def)
qed

subsection \<open>The example hosts\<close>

lemma calls_distinct: "unknownCall \<noteq> readFileCall" "unprintableCall \<noteq> readFileCall"
  by (simp_all add: unknownCall_def unprintableCall_def readFileCall_def js_def)


lemma unprintableInputHost_simps:
  "isCancellationRequested unprintableInputHost n = False"
  "sendRequest unprintableInputHost ms ts w =
     (Inr \<lparr>chunks = [ToolCallChunk readFileCall, ToolCallChunk unprintableCall], streamError = None\<rparr>, w)"
  "invokeTool unprintableInputHost readFileCall w = (Inr [LanguageModelTextPart (js ''contents'')], w)"
  "invokeTool unprintableInputHost unprintableCall w = (Inl (js ''unknown tool''), w)"
  "filter (prefix AGENT_TOOL_PREFIX) (lmTools unprintableInputHost) = [js ''agent-router_readFile'']"
  by (simp_all add: unprintableInputHost_def calls_distinct AGENT_TOOL_PREFIX_def js_def)

text \<open>The summaries of the three calls: two can be written, the third throws.\<close>

lemma summary_readFileCall:
  "summarizeToolCall (name readFileCall) (input readFileCall) = Inr ([96] @ js ''readFile'' @ [96])"
  by (simp add: summarizeToolCall_def truthyProperty_def readFileCall_def AGENT_TOOL_PREFIX_def js_def)


lemma summary_unprintableCall:
  "summarizeToolCall (name unprintableCall) (input unprintableCall) = Inl typeErrorMessage"
  by (simp add: summarizeToolCall_def truthyProperty_def unprintableCall_def Let_def)

subsection \<open>Errors of tools\<close>






subsection \<open>A call whose summary cannot be written\<close>

text \<open>
  The run of the host whose model asks for \<open>readFile\<close> and then for a tool with the input
  \<open>{"path": {"toString": 0}}\<close>: the first call is invoked; the summary of the second
  throws, after the assistant message was appended and before the tool is invoked; the
  results collected so far are never appended.
\<close>

lemma unprintable_round:
  "runRound unprintableInputHost [js ''agent-router_readFile''] 0
     \<lparr>messages = [User (SYSTEM_PROMPT @ js ''\<newline>\<newline>User request: '' @ js ''hello'')],
      trace = [], world = (), clock = 0\<rparr>
   = (Throw typeErrorMessage,
      \<lparr>messages = [User (SYSTEM_PROMPT @ js ''\<newline>\<newline>User request: '' @ js ''hello''),
                   Assistant [AssistantToolCall readFileCall, AssistantToolCall unprintableCall]],
       trace = [AppendLine (LogRound 1),
                SendRequest [User (SYSTEM_PROMPT @ js ''\<newline>\<newline>User request: '' @ js ''hello'')]
                  [js ''agent-router_readFile''],
                AppendLine (LogToolCall readFileCall), AppendLine (LogToolCall unprintableCall),
                Markdown (ToolSummaryMd ([96] @ js ''readFile'' @ [96])),
                AppendLine (LogToolRun (name readFileCall)),
                InvokeTool readFileCall,
                AppendLine (LogToolResult [LanguageModelTextPart (js ''contents'')])],
       world = (), clock = 5\<rparr>)"
  by (simp add: runRound_def unprintableInputHost_simps runToolCall_def summary_readFileCall
      summary_unprintableCall emit_def tick_def Let_def)

lemma unprintable_run:
  "runAgentLoop unprintableInputHost (js ''hello'') ()
   = (Threw typeErrorMessage,
      \<lparr>messages = [User (SYSTEM_PROMPT @ js ''\<newline>\<newline>User request: '' @ js ''hello''),
                   Assistant [AssistantToolCall readFileCall, AssistantToolCall unprintableCall]],
       trace = [AppendLine (LogRound 1),
                SendRequest [User (SYSTEM_PROMPT @ js ''\<newline>\<newline>User request: '' @ js ''hello'')]
                  [js ''agent-router_readFile''],
                AppendLine (LogToolCall readFileCall), AppendLine (LogToolCall unprintableCall),
                Markdown (ToolSummaryMd ([96] @ js ''readFile'' @ [96])),
                AppendLine (LogToolRun (name readFileCall)),
                InvokeTool readFileCall,
                AppendLine (LogToolResult [LanguageModelTextPart (js ''contents'')])],
       world = (), clock = 5\<rparr>)"
proof -
  have start: "runAgentLoop unprintableInputHost (js ''hello'') ()
      = runRounds unprintableInputHost [js ''agent-router_readFile''] 0
          \<lparr>messages = [User (SYSTEM_PROMPT @ js ''\<newline>\<newline>User request: '' @ js ''hello'')],
           trace = [], world = (), clock = 0\<rparr>"
    by (simp add: runAgentLoop_unfold unprintableInputHost_simps)
  have b: "0 < MAX_TOOL_ROUNDS"
    by (simp add: MAX_TOOL_ROUNDS_def)
  from runRounds_Throw [OF b unprintable_round] start show ?thesis by simp
qed

text \<open>
  C1. The run above: \<open>readFile\<close> was handed to \<open>invokeTool\<close>, and it is the only call that
  was; the loop ends with the \<open>TypeError\<close>; the conversation ends with the assistant
  message, and no tool result was appended for the call that was processed.
\<close>

theorem processed_call_without_result:
  "fst (runAgentLoop unprintableInputHost (js ''hello'') ()) = Threw typeErrorMessage
   \<and> invocationsOf (trace (snd (runAgentLoop unprintableInputHost (js ''hello'') ()))) = [readFileCall]
   \<and> messages (snd (runAgentLoop unprintableInputHost (js ''hello'') ()))
       = [User (SYSTEM_PROMPT @ js ''\<newline>\<newline>User request: '' @ js ''hello''),
          Assistant [AssistantToolCall readFileCall, AssistantToolCall unprintableCall]]"
  by (simp add: unprintable_run)

text \<open>
  C3. The token of that host is never cancelled, and every response of its model ends
  normally and holds a tool call. The loop sends one request, not 15, and ends with the
  \<open>TypeError\<close>.
\<close>

theorem one_round_despite_tool_calls:
  "(\<forall>n. \<not> isCancellationRequested unprintableInputHost n)
   \<and> (\<forall>ms ts w. \<exists>resp w'. sendRequest unprintableInputHost ms ts w = (Inr resp, w')
          \<and> streamError resp = None \<and> callsOf (chunks resp) \<noteq> [])
   \<and> length (requestsOf (trace (snd (runAgentLoop unprintableInputHost (js ''hello'') ())))) = 1
   \<and> fst (runAgentLoop unprintableInputHost (js ''hello'') ()) = Threw typeErrorMessage"
  by (simp add: unprintable_run unprintableInputHost_simps)

text \<open>
  C7. The second call of that run names the tool \<open>doesNotExist\<close>, for which the host
  throws. The loop ends with the \<open>TypeError\<close> of the summary before the call is handed to
  \<open>invokeTool\<close>: no failure is appended for it, and no second request is sent.
\<close>

theorem unknown_tool_without_result:
  "name unprintableCall = js ''doesNotExist''
   \<and> invokeTool unprintableInputHost unprintableCall () = (Inl (js ''unknown tool''), ())
   \<and> fst (runAgentLoop unprintableInputHost (js ''hello'') ()) = Threw typeErrorMessage
   \<and> InvokeTool unprintableCall \<notin> set (trace (snd (runAgentLoop unprintableInputHost (js ''hello'') ())))
   \<and> last (messages (snd (runAgentLoop unprintableInputHost (js ''hello'') ())))
       = Assistant [AssistantToolCall readFileCall, AssistantToolCall unprintableCall]
   \<and> requestsOf (trace (snd (runAgentLoop unprintableInputHost (js ''hello'') ())))
       = [[User (SYSTEM_PROMPT @ js ''\<newline>\<newline>User request: '' @ js ''hello'')]]"
  by (simp add: unprintable_run unprintableInputHost_simps calls_distinct
      unprintableCall_def [THEN arg_cong, of name])

subsection \<open>One result for each processed call\<close>

text \<open>
  A round that goes on to the next one has appended the assistant message and then one batch
  with one result per call handed to \<open>invokeTool\<close>, in the order of the calls; a round that
  breaks the loop invokes no tool and appends nothing; any request of the following round
  carries the whole conversation.
\<close>

lemma round_results_appended:
  assumes "runRound env agentTools rnd st = (r, st')"
  shows "(r = NextRound \<longrightarrow>
            (\<exists>assistantParts toolResults.
                messages st' = messages st @ [Assistant assistantParts, UserToolResults toolResults]
              \<and> map resultCallId toolResults = map callId (invocationsOf (newEvents st st'))
              \<and> prefix (invocationsOf (newEvents st st')) (callsIn assistantParts))
            \<and> requestsOf (newEvents st st') = [messages st])
       \<and> (r = Break \<longrightarrow> invocationsOf (newEvents st st') = [] \<and> messages st' = messages st)
       \<and> (\<forall>rnd'. set (requestsOf (newEvents st' (snd (runRound env agentTools rnd' st'))))
                    \<subseteq> {messages st'})"
proof -
  from runRound_effect [OF assms] obtain evs where evs: "trace st' = trace st @ evs"
    and rest: "(r = Break \<longrightarrow> messages st' = messages st \<and> invocationsOf evs = [])"
      "(r = NextRound \<longrightarrow> requestsOf evs = [messages st]
                \<and> (\<forall>e. ModelErrorMd e \<notin> set (chatOf evs))
                \<and> (\<exists>assistantParts toolResults.
                      messages st' = messages st @ [Assistant assistantParts, UserToolResults toolResults]
                    \<and> map resultCallId toolResults = map callId (invocationsOf evs)
                    \<and> prefix (invocationsOf evs) (callsIn assistantParts)))"
    by blast
  have new: "newEvents st st' = evs"
    using evs by simp
  have next_round: "set (requestsOf (newEvents st' (snd (runRound env agentTools rnd' st')))) \<subseteq> {messages st'}" for rnd'
  proof -
    obtain r2 st2 where two: "runRound env agentTools rnd' st' = (r2, st2)"
      by (cases "runRound env agentTools rnd' st'")
    from runRound_effect [OF two] obtain evs2 where
      "trace st2 = trace st' @ evs2" "set (requestsOf evs2) \<subseteq> {messages st'}" by blast
    with two show ?thesis by simp
  qed
  from rest next_round show ?thesis
    unfolding new by blast
qed


subsection \<open>Cancellation during the stream\<close>

lemma runToolCalls_cancelled:
  "isCancellationRequested env (clock st) \<Longrightarrow> calls \<noteq> [] \<Longrightarrow>
     runToolCalls env calls rs st = (Inr rs, tick st)"
  by (cases calls) simp_all

lemma runRound_cancelled:
  "isCancellationRequested env (clock st) \<Longrightarrow> runRound env agentTools rnd st = (Break, tick st)"
  by (simp add: runRound_def)

text \<open>
  C4. The token, once cancelled, stays cancelled. In a round it is first found cancelled
  after \<open>k\<close> chunks of the response have been handled. Then the run returns with no
  further request; only the text of the first \<open>k\<close> chunks has been written to the chat;
  no tool is invoked, the calls among the first \<open>k\<close> chunks included; and the trace and the
  messages from before are a prefix of the final ones. When calls had been collected, the
  assistant message and an empty batch of results are appended.
\<close>

theorem cancellation_mid_stream:
  assumes mono: "\<forall>n m. n \<le> m \<longrightarrow> isCancellationRequested env n \<longrightarrow> isCancellationRequested env m"
    and budget: "rnd < MAX_TOOL_ROUNDS"
    and send: "sendRequest env (messages st) agentTools (world st) = (Inr resp, w)"
    and k: "k \<le> length (chunks resp)"
    and ended: "k = length (chunks resp) \<longrightarrow> streamError resp = None"
    and before: "\<not> isCancellationRequested env (clock st + k)"
    and fired: "isCancellationRequested env (clock st + k + 1)"
  shows "\<exists>st'. runRounds env agentTools rnd st = (Returned, st')
          \<and> prefix (trace st) (trace st') \<and> prefix (messages st) (messages st')
          \<and> requestsOf (newEvents st st') = [messages st]
          \<and> invocationsOf (newEvents st st') = []
          \<and> chatOf (newEvents st st') = map TextMd (textsOf (take k (chunks resp)))
          \<and> (callsOf (take k (chunks resp)) = [] \<longrightarrow> messages st' = messages st)
          \<and> (callsOf (take k (chunks resp)) \<noteq> [] \<longrightarrow>
                (\<exists>assistantParts.
                    messages st' = messages st @ [Assistant assistantParts, UserToolResults []]
                  \<and> callsIn assistantParts = callsOf (take k (chunks resp))))"
proof -
  have early: "\<not> isCancellationRequested env n" if "n \<le> clock st + k" for n
    using mono before that by blast
  have late: "isCancellationRequested env n" if "clock st + k + 1 \<le> n" for n
    using mono fired that by blast
  define st2 where "st2 = (emit (SendRequest (messages st) agentTools)
      (emit (AppendLine (LogRound (rnd + 1))) (tick st)))\<lparr>world := w\<rparr>"
  have c2: "clock st2 = clock st + 1" by (simp add: st2_def)
  have "\<forall>j<k. \<not> isCancellationRequested env (clock st2 + j)"
    using early c2 by simp
  moreover have "k < length (chunks resp) \<longrightarrow> isCancellationRequested env (clock st2 + k)"
    using late c2 by simp
  ultimately obtain ps st3 evs3 where c3:
    "consumeStream env (chunks resp) (streamError resp) ([], []) st2
       = (None, (callsOf (take k (chunks resp)), ps), st3)"
    "callsIn ps = callsOf (take k (chunks resp))" "messages st3 = messages st"
    "clock st + k + 1 \<le> clock st3"
    "trace st3 = trace st2 @ evs3" "requestsOf evs3 = []" "invocationsOf evs3 = []"
    "chatOf evs3 = map TextMd (textsOf (take k (chunks resp)))"
    using consumeStream_run [of k env st2 "chunks resp" "streamError resp" "[]" "[]"] k ended c2
    by (cases "k < length (chunks resp)") (auto simp: st2_def)
  have tr3: "trace st3 = trace st @ ([AppendLine (LogRound (rnd + 1)), SendRequest (messages st) agentTools] @ evs3)"
    using c3(5) by (simp add: st2_def)
  have nc0: "\<not> isCancellationRequested env (clock st)"
    using early by simp
  show ?thesis
  proof (cases "callsOf (take k (chunks resp)) = []")
    case True
    define fin where "fin = emit (AppendLine (LogFinished (rnd + 1))) st3"
    have "runRound env agentTools rnd st = (Break, fin)"
      using nc0 send c3(1) True by (simp add: runRound_def Let_def st2_def fin_def)
    from runRounds_Break [OF budget this]
    have run: "runRounds env agentTools rnd st = (Returned, fin)" .
    have trf: "trace fin = trace st @ ([AppendLine (LogRound (rnd + 1)), SendRequest (messages st) agentTools]
        @ evs3 @ [AppendLine (LogFinished (rnd + 1))])"
      using tr3 by (simp add: fin_def)
    have "newEvents st fin = [AppendLine (LogRound (rnd + 1)), SendRequest (messages st) agentTools]
        @ evs3 @ [AppendLine (LogFinished (rnd + 1))]"
      using trf by (rule newEvents_append)
    with run trf c3 True show ?thesis
      by (intro exI [of _ fin]) (simp add: fin_def)
  next
    case False
    define st4 where "st4 = st3\<lparr>messages := messages st3 @ [Assistant ps]\<rparr>"
    define st5 where "st5 = (tick st4)\<lparr>messages := messages (tick st4) @ [UserToolResults []]\<rparr>"
    have "isCancellationRequested env (clock st4)"
      using late c3(4) by (simp add: st4_def)
    from runToolCalls_cancelled [OF this False]
    have tools: "runToolCalls env (callsOf (take k (chunks resp))) [] st4 = (Inr [], tick st4)" .
    have one: "runRound env agentTools rnd st = (NextRound, st5)"
      using nc0 send c3(1) False tools
      by (simp add: runRound_def Let_def st2_def st4_def [symmetric] st5_def)
    have tr5: "trace st5 = trace st @ ([AppendLine (LogRound (rnd + 1)), SendRequest (messages st) agentTools] @ evs3)"
      using tr3 by (simp add: st5_def st4_def)
    have m5: "messages st5 = messages st @ [Assistant ps, UserToolResults []]"
      using c3(3) by (simp add: st5_def st4_def)
    have cancelled5: "isCancellationRequested env (clock st5)"
      using late c3(4) by (simp add: st5_def st4_def)
    obtain fin where fin: "runRounds env agentTools (rnd + 1) st5 = (Returned, fin)"
      "trace fin = trace st5" "messages fin = messages st5"
    proof (cases "rnd + 1 < MAX_TOOL_ROUNDS")
      case True
      from runRounds_Break [OF True runRound_cancelled [OF cancelled5]]
      have "runRounds env agentTools (rnd + 1) st5 = (Returned, tick st5)" .
      then show ?thesis by (rule that) simp_all
    next
      case False
      from runRounds_exhausted [OF False]
      have "runRounds env agentTools (rnd + 1) st5 = (Returned, st5)" .
      then show ?thesis by (rule that) simp_all
    qed
    have run: "runRounds env agentTools rnd st = (Returned, fin)"
      using runRounds_NextRound [OF budget one] fin(1) by simp
    have trf: "trace fin = trace st @ ([AppendLine (LogRound (rnd + 1)), SendRequest (messages st) agentTools] @ evs3)"
      using tr5 fin(2) by simp
    have "newEvents st fin = [AppendLine (LogRound (rnd + 1)), SendRequest (messages st) agentTools] @ evs3"
      using trf by (rule newEvents_append)
    with run trf c3 False m5 fin(3) show ?thesis
      by (intro exI [of _ fin]) simp
  qed
qed

text \<open>
  The theorem at a token that is cancelled from its fourth reading on.
\<close>

theorem cancellation_mid_stream_witness:
  "(0::nat) < MAX_TOOL_ROUNDS
   \<and> sendRequest cancellingHost (messages startState) [] (world startState)
        = (Inr \<lparr>chunks = [TextChunk (js ''one''), ToolCallChunk readFileCall, TextChunk (js ''two''),
                        ToolCallChunk unknownCall], streamError = None\<rparr>, ())
   \<and> \<not> isCancellationRequested cancellingHost (clock startState + 2)
   \<and> isCancellationRequested cancellingHost (clock startState + 2 + 1)
   \<and> (\<exists>st'. runRounds cancellingHost [] 0 startState = (Returned, st')
          \<and> invocationsOf (newEvents startState st') = []
          \<and> chatOf (newEvents startState st') = [TextMd (js ''one'')]
          \<and> (\<exists>assistantParts.
                 messages st' = messages startState @ [Assistant assistantParts, UserToolResults []]
               \<and> callsIn assistantParts = [readFileCall]))"
proof -
  let ?resp = "\<lparr>chunks = [TextChunk (js ''one''), ToolCallChunk readFileCall, TextChunk (js ''two''),
                        ToolCallChunk unknownCall], streamError = None\<rparr>"
  have h1: "\<forall>n m. n \<le> m \<longrightarrow> isCancellationRequested cancellingHost n \<longrightarrow> isCancellationRequested cancellingHost m"
    by (simp add: cancellingHost_def)
  have h2: "(0::nat) < MAX_TOOL_ROUNDS"
    by (simp add: MAX_TOOL_ROUNDS_def)
  have h3: "sendRequest cancellingHost (messages startState) [] (world startState) = (Inr ?resp, ())"
    by (simp add: cancellingHost_def)
  have h4: "2 \<le> length (chunks ?resp)"
    by simp
  have h4': "2 = length (chunks ?resp) \<longrightarrow> streamError ?resp = None"
    by simp
  have h5: "\<not> isCancellationRequested cancellingHost (clock startState + 2)"
    by (simp add: cancellingHost_def startState_def)
  have h6: "isCancellationRequested cancellingHost (clock startState + 2 + 1)"
    by (simp add: cancellingHost_def startState_def)
  have t: "take 2 (chunks ?resp) = [TextChunk (js ''one''), ToolCallChunk readFileCall]"
    by (simp add: numeral_2_eq_2)
  from cancellation_mid_stream [OF h1 h2 h3 h4 h4' h5 h6] obtain st' where
    "runRounds cancellingHost [] 0 startState = (Returned, st')"
    "invocationsOf (newEvents startState st') = []"
    "chatOf (newEvents startState st') = map TextMd (textsOf (take 2 (chunks ?resp)))"
    "callsOf (take 2 (chunks ?resp)) \<noteq> [] \<longrightarrow>
       (\<exists>assistantParts. messages st' = messages startState @ [Assistant assistantParts, UserToolResults []]
          \<and> callsIn assistantParts = callsOf (take 2 (chunks ?resp)))"
    by blast
  then have "runRounds cancellingHost [] 0 startState = (Returned, st')
          \<and> invocationsOf (newEvents startState st') = []
          \<and> chatOf (newEvents startState st') = [TextMd (js ''one'')]
          \<and> (\<exists>assistantParts.
                 messages st' = messages startState @ [Assistant assistantParts, UserToolResults []]
               \<and> callsIn assistantParts = [readFileCall])"
    unfolding t by simp
  then have "\<exists>st'. runRounds cancellingHost [] 0 startState = (Returned, st')
          \<and> invocationsOf (newEvents startState st') = []
          \<and> chatOf (newEvents startState st') = [TextMd (js ''one'')]
          \<and> (\<exists>assistantParts.
                 messages st' = messages startState @ [Assistant assistantParts, UserToolResults []]
               \<and> callsIn assistantParts = [readFileCall])"
    by (rule exI)
  with h2 h3 h5 h6 show ?thesis
    by (intro conjI)
qed

subsection \<open>A round without tool calls\<close>

lemma runRound_no_calls:
  assumes "\<not> isCancellationRequested env (clock st)"
    and "sendRequest env (messages st) agentTools (world st) = (Inr resp, w)"
    and "streamError resp = None"
    and "callsOf (chunks resp) = []"
  shows "fst (runRound env agentTools rnd st) = Break"
proof -
  define st2 where "st2 = (emit (SendRequest (messages st) agentTools)
      (emit (AppendLine (LogRound (rnd + 1))) (tick st)))\<lparr>world := w\<rparr>"
  obtain r0 tcs ps st3 where cons:
    "consumeStream env (chunks resp) (streamError resp) ([], []) st2 = (r0, (tcs, ps), st3)"
    by (metis prod.exhaust)
  from consumeStream_no_calls [OF assms(4) cons] have "tcs = []" .
  moreover have "r0 = None"
  proof (cases r0)
    case (Some e)
    with cons consumeStream_error [of env "chunks resp" "streamError resp" "([], [])" st2 e]
    show ?thesis using assms(3) by simp
  qed simp
  ultimately show ?thesis
    using assms(1,2) cons by (simp add: runRound_def Let_def st2_def)
qed

lemma runRounds_no_calls:
  assumes budget: "rnd < MAX_TOOL_ROUNDS"
    and nc: "\<not> isCancellationRequested env (clock st)"
    and send: "sendRequest env (messages st) agentTools (world st) = (Inr resp, w)"
    and ok: "streamError resp = None"
    and none: "callsOf (chunks resp) = []"
  shows "\<exists>st'. runRounds env agentTools rnd st = (Returned, st') \<and> messages st' = messages st
           \<and> requestsOf (newEvents st st') = [messages st]
           \<and> invocationsOf (newEvents st st') = []"
proof -
  obtain r st1 where one: "runRound env agentTools rnd st = (r, st1)"
    by (cases "runRound env agentTools rnd st")
  with runRound_no_calls [OF nc send ok none, of rnd] have r: "r = Break" by simp
  from runRound_effect [OF one] r obtain evs where
    e1: "trace st1 = trace st @ evs" "messages st1 = messages st" "invocationsOf evs = []" by auto
  from runRound_request [OF nc one] e1(1) have e2: "requestsOf evs = [messages st]" by auto
  from runRounds_Break [OF budget] one r have "runRounds env agentTools rnd st = (Returned, st1)" by simp
  with e1 e2 show ?thesis by (intro exI [of _ st1]) simp
qed

text \<open>
  C6. A round whose response ends normally and holds no tool call ends the run: the loop
  returns, the conversation is as before, and the request of that round is the last.
  In particular, when the first response holds no tool call, exactly one request is sent and
  the conversation stays the single user message: no tool result is ever appended.
\<close>

theorem no_tool_calls_ends_loop:
  "(\<forall>agentTools rnd st resp w.
       rnd < MAX_TOOL_ROUNDS \<and> \<not> isCancellationRequested env (clock st)
       \<and> sendRequest env (messages st) agentTools (world st) = (Inr resp, w)
       \<and> streamError resp = None \<and> callsOf (chunks resp) = []
       \<longrightarrow> (\<exists>st'. runRounds env agentTools rnd st = (Returned, st') \<and> messages st' = messages st
              \<and> requestsOf (newEvents st st') = [messages st]
              \<and> invocationsOf (newEvents st st') = []))
   \<and> (\<forall>userPrompt w resp w'.
       \<not> isCancellationRequested env 0
       \<and> sendRequest env [User (SYSTEM_PROMPT @ js ''\<newline>\<newline>User request: '' @ userPrompt)]
            (filter (prefix AGENT_TOOL_PREFIX) (lmTools env)) w = (Inr resp, w')
       \<and> streamError resp = None \<and> callsOf (chunks resp) = []
       \<longrightarrow> fst (runAgentLoop env userPrompt w) = Returned
         \<and> requestsOf (trace (snd (runAgentLoop env userPrompt w)))
             = [[User (SYSTEM_PROMPT @ js ''\<newline>\<newline>User request: '' @ userPrompt)]]
         \<and> invocationsOf (trace (snd (runAgentLoop env userPrompt w))) = []
         \<and> messages (snd (runAgentLoop env userPrompt w))
             = [User (SYSTEM_PROMPT @ js ''\<newline>\<newline>User request: '' @ userPrompt)])"
proof -
  have general: "\<exists>st'. runRounds env agentTools rnd st = (Returned, st') \<and> messages st' = messages st
              \<and> requestsOf (newEvents st st') = [messages st]
              \<and> invocationsOf (newEvents st st') = []"
    if h: "rnd < MAX_TOOL_ROUNDS \<and> \<not> isCancellationRequested env (clock st)
       \<and> sendRequest env (messages st) agentTools (world st) = (Inr resp, w)
       \<and> streamError resp = None \<and> callsOf (chunks resp) = []"
    for agentTools rnd and st :: "'a agentState" and resp w
  proof -
    from h have "rnd < MAX_TOOL_ROUNDS" "\<not> isCancellationRequested env (clock st)"
      "sendRequest env (messages st) agentTools (world st) = (Inr resp, w)"
      "streamError resp = None" "callsOf (chunks resp) = []"
      by simp_all
    then show ?thesis by (rule runRounds_no_calls)
  qed
  have scenario: "fst (runAgentLoop env userPrompt w) = Returned
         \<and> requestsOf (trace (snd (runAgentLoop env userPrompt w)))
             = [[User (SYSTEM_PROMPT @ js ''\<newline>\<newline>User request: '' @ userPrompt)]]
         \<and> invocationsOf (trace (snd (runAgentLoop env userPrompt w))) = []
         \<and> messages (snd (runAgentLoop env userPrompt w))
             = [User (SYSTEM_PROMPT @ js ''\<newline>\<newline>User request: '' @ userPrompt)]"
    if h: "\<not> isCancellationRequested env 0
       \<and> sendRequest env [User (SYSTEM_PROMPT @ js ''\<newline>\<newline>User request: '' @ userPrompt)]
            (filter (prefix AGENT_TOOL_PREFIX) (lmTools env)) w = (Inr resp, w')
       \<and> streamError resp = None \<and> callsOf (chunks resp) = []"
    for userPrompt and w :: 'a and resp w'
  proof -
    let ?tl = "filter (prefix AGENT_TOOL_PREFIX) (lmTools env)"
    let ?first = "User (SYSTEM_PROMPT @ js ''\<newline>\<newline>User request: '' @ userPrompt)"
    define st0 where "st0 = (if ?tl = []
           then emit (AppendLine LogNoTools) \<lparr>messages = [], trace = [], world = w, clock = 0\<rparr>
           else \<lparr>messages = [], trace = [], world = w, clock = 0\<rparr>) \<lparr>messages := [?first]\<rparr>"
    have run: "runAgentLoop env userPrompt w = runRounds env ?tl 0 st0"
      by (simp add: runAgentLoop_unfold st0_def)
    have s0: "messages st0 = [?first]" "world st0 = w" "clock st0 = 0"
      "requestsOf (trace st0) = []" "invocationsOf (trace st0) = []"
      by (simp_all add: st0_def)
    have b: "0 < MAX_TOOL_ROUNDS" by (simp add: MAX_TOOL_ROUNDS_def)
    have nc: "\<not> isCancellationRequested env (clock st0)"
      using h s0(3) by simp
    have send: "sendRequest env (messages st0) ?tl (world st0) = (Inr resp, w')"
      using h s0(1,2) by simp
    from h have ok: "streamError resp = None" and none: "callsOf (chunks resp) = []"
      by simp_all
    from runRounds_no_calls [OF b nc send ok none] obtain st' where fin0:
      "runRounds env ?tl 0 st0 = (Returned, st')" "messages st' = messages st0"
      "requestsOf (newEvents st0 st') = [messages st0]" "invocationsOf (newEvents st0 st') = []"
      by blast
    have fin: "runRounds env ?tl 0 st0 = (Returned, st')" "messages st' = [?first]"
      "requestsOf (newEvents st0 st') = [[?first]]" "invocationsOf (newEvents st0 st') = []"
      using fin0 s0(1) by simp_all
    from runRounds_effect [OF fin(1)] obtain evs where evs: "trace st' = trace st0 @ evs" by blast
    then have "newEvents st0 st' = evs" by simp
    with fin evs s0 have "requestsOf (trace st') = [[?first]]" "invocationsOf (trace st') = []"
      by simp_all
    with fin(1,2) show ?thesis
      unfolding run by simp
  qed
  show ?thesis
    apply (rule conjI)
     apply (intro allI impI)
     apply (erule general)
    apply (intro allI impI)
    apply (erule scenario)
    done
qed

text \<open>
  The theorem at the host whose model answers with text only.
\<close>

theorem no_tool_calls_ends_loop_witness:
  "\<not> isCancellationRequested textOnlyHost 0
   \<and> sendRequest textOnlyHost [User (SYSTEM_PROMPT @ js ''\<newline>\<newline>User request: '' @ js ''hello'')]
        (filter (prefix AGENT_TOOL_PREFIX) (lmTools textOnlyHost)) ()
        = (Inr \<lparr>chunks = [TextChunk (js ''done'')], streamError = None\<rparr>, ())
   \<and> callsOf [TextChunk (js ''done'')] = []
   \<and> fst (runAgentLoop textOnlyHost (js ''hello'') ()) = Returned
   \<and> messages (snd (runAgentLoop textOnlyHost (js ''hello'') ()))
        = [User (SYSTEM_PROMPT @ js ''\<newline>\<newline>User request: '' @ js ''hello'')]
   \<and> length (requestsOf (trace (snd (runAgentLoop textOnlyHost (js ''hello'') ())))) = 1"
proof -
  let ?resp = "\<lparr>chunks = [TextChunk (js ''done'')], streamError = None\<rparr>"
  have h: "\<not> isCancellationRequested textOnlyHost 0
     \<and> sendRequest textOnlyHost [User (SYSTEM_PROMPT @ js ''\<newline>\<newline>User request: '' @ js ''hello'')]
        (filter (prefix AGENT_TOOL_PREFIX) (lmTools textOnlyHost)) () = (Inr ?resp, ())
     \<and> streamError ?resp = None \<and> callsOf (chunks ?resp) = []"
    by (simp add: textOnlyHost_def)
  from no_tool_calls_ends_loop [of textOnlyHost, THEN conjunct2, rule_format, OF h] h
  show ?thesis by simp
qed

subsection \<open>Errors of the model\<close>

lemma model_error_reported_once:
  assumes budget: "rnd < MAX_TOOL_ROUNDS"
    and nc: "\<not> isCancellationRequested env (clock st)"
    and send: "sendRequest env (messages st) agentTools (world st) = (Inl e, w)"
  shows "\<exists>st'. runRounds env agentTools rnd st = (Returned, st') \<and> messages st' = messages st
           \<and> chatOf (newEvents st st') = [ModelErrorMd e]
           \<and> requestsOf (newEvents st st') = [messages st]
           \<and> invocationsOf (newEvents st st') = []"
proof -
  define fin where "fin = emit (Markdown (ModelErrorMd e))
     ((emit (SendRequest (messages st) agentTools) (emit (AppendLine (LogRound (rnd + 1))) (tick st)))\<lparr>world := w\<rparr>)"
  have "runRound env agentTools rnd st = (Break, fin)"
    using nc send by (simp add: runRound_def Let_def fin_def)
  from runRounds_Break [OF budget this] have run: "runRounds env agentTools rnd st = (Returned, fin)" .
  have "trace fin = trace st @ [AppendLine (LogRound (rnd + 1)), SendRequest (messages st) agentTools,
      Markdown (ModelErrorMd e)]"
    by (simp add: fin_def)
  then have "newEvents st fin = [AppendLine (LogRound (rnd + 1)), SendRequest (messages st) agentTools,
      Markdown (ModelErrorMd e)]"
    by (rule newEvents_append)
  with run show ?thesis
    by (intro exI [of _ fin]) (simp add: fin_def)
qed

text \<open>
  C5. A response stream that throws after its first chunk: \<open>runAgentLoop\<close> ends with that
  error, and what the chat shows is the text of the chunk, with no model error written.
  Only a failure of \<open>sendRequest\<close> is reported (\<open>model_error_reported_once\<close>).
\<close>

theorem stream_failure_leaves_the_loop:
  "fst (runAgentLoop failingStreamHost (js ''hello'') ()) = Threw (js ''network error'')
   \<and> chatOf (trace (snd (runAgentLoop failingStreamHost (js ''hello'') ())))
       = [TextMd (js ''partial'')]
   \<and> length (requestsOf (trace (snd (runAgentLoop failingStreamHost (js ''hello'') ())))) = 1"
proof -
  let ?st0 = "\<lparr>messages = [User (SYSTEM_PROMPT @ js ''\<newline>\<newline>User request: '' @ js ''hello'')],
     trace = [AppendLine LogNoTools], world = (), clock = 0\<rparr>"
  let ?fin = "\<lparr>messages = [User (SYSTEM_PROMPT @ js ''\<newline>\<newline>User request: '' @ js ''hello'')],
     trace = [AppendLine LogNoTools, AppendLine (LogRound 1),
              SendRequest [User (SYSTEM_PROMPT @ js ''\<newline>\<newline>User request: '' @ js ''hello'')] [],
              Markdown (TextMd (js ''partial''))],
     world = (), clock = 2\<rparr>"
  have start: "runAgentLoop failingStreamHost (js ''hello'') () = runRounds failingStreamHost [] 0 ?st0"
    by (simp add: runAgentLoop_unfold failingStreamHost_def emit_def)
  have "runRound failingStreamHost [] 0 ?st0 = (Throw (js ''network error''), ?fin)"
    by (simp add: runRound_def failingStreamHost_def emit_def tick_def Let_def)
  from runRounds_Throw [OF _ this] have "runRounds failingStreamHost [] 0 ?st0 = (Threw (js ''network error''), ?fin)"
    by (simp add: MAX_TOOL_ROUNDS_def)
  with start show ?thesis by simp
qed

end
